theory Spec2Isabelle
  imports Complex_Main
begin

section \<open>Numbers, coordinates and errors\<close>

text \<open>
  The sketch computes with JavaScript numbers. They are modelled as \<^typ>\<open>real\<close>:
  grid units, tick counts and the quarter durations derived from them are exact in
  both. The two places where the source leaves the finite numbers are written out:
  \<open>a % 0\<close> is \<open>NaN\<close> (here \<open>None\<close>), and an array read out of range is
  \<open>undefined\<close> (here \<open>None\<close> in an array slot); reading a property of
  \<open>undefined\<close> throws a \<open>TypeError\<close>.

  The decimal literals \<open>0.7\<close>, \<open>0.99\<close> and \<open>0.9\<close> of the source are not exact in
  binary: the program holds the doubles nearest to them, and so does the model. The
  arithmetic on them is exact here, where the source rounds each result to a double.
\<close>

definition double_0_7 :: real where
  "double_0_7 = 3152519739159347 / 4503599627370496"

definition double_0_99 :: real where
  "double_0_99 = 4458563631096791 / 4503599627370496"


type_synonym Cord = "real \<times> real"
type_synonym Line = "Cord \<times> Cord"
type_synonym Rect = "Cord \<times> Cord"

datatype error = TypeError

text \<open>JavaScript's \<open>%\<close>: the remainder has the sign of the dividend; \<open>a % 0\<close> is NaN.\<close>

definition js_trunc :: "real \<Rightarrow> int" where
  "js_trunc x = (if 0 \<le> x then \<lfloor>x\<rfloor> else \<lceil>x\<rceil>)"

definition js_mod :: "real \<Rightarrow> real \<Rightarrow> real option" where
  "js_mod a b = (if b = 0 then None else Some (a - b * of_int (js_trunc (a / b))))"

text \<open>\<open>xs[i]\<close> on an array whose slots may hold \<open>undefined\<close>.\<close>

definition js_index :: "'a option list \<Rightarrow> nat option \<Rightarrow> 'a option" where
  "js_index xs i = (case i of None \<Rightarrow> None
                    | Some n \<Rightarrow> if n < length xs then xs ! n else None)"

text \<open>The first error of a list of results, or all the values.\<close>

fun sequenceE :: "(error + 'a) list \<Rightarrow> error + 'a list" where
  "sequenceE [] = Inr []"
| "sequenceE (Inl e # _) = Inl e"
| "sequenceE (Inr x # rs) = (case sequenceE rs of Inl e \<Rightarrow> Inl e | Inr xs \<Rightarrow> Inr (x # xs))"

section \<open>The animation interpolator (\<open>animateLine\<close>)\<close>

text \<open>
  \<open>AnimateLineType\<close> of the source, and \<open>NoType\<close> for the \<open>undefined\<close> that
  \<open>animationSequence[animationIndex]\<close> yields outside \<open>0..3\<close>.
\<close>

datatype AnimateLineType = Static | StartSuck | StartExpand | EndSuck | EndExpand | NoType

text \<open>
  The first half of \<open>animateLine\<close>: the pair \<open>(startRatio, endRatio)\<close>. Both start at
  0; each \<open>if (type === ...)\<close> of the source matches one type. \<open>easeOutElastic\<close> is
  imported from \<open>utils/easing\<close> and is a parameter here.
\<close>

fun animateRatios :: "(real \<Rightarrow> real) \<Rightarrow> AnimateLineType \<Rightarrow> real \<Rightarrow> real \<times> real" where
  "animateRatios easeOutElastic Static proportion = (0, proportion)"
| "animateRatios easeOutElastic StartSuck proportion = (1 - easeOutElastic proportion, 1)"
| "animateRatios easeOutElastic StartExpand proportion = (easeOutElastic proportion, 1)"
| "animateRatios easeOutElastic EndSuck proportion = (0, 1 - easeOutElastic proportion)"
| "animateRatios easeOutElastic EndExpand proportion = (0, easeOutElastic proportion)"
| "animateRatios easeOutElastic NoType proportion = (0, 0)"

text \<open>The second half: the vertical test comes first, then the horizontal one.\<close>

fun scaleLine :: "Line \<Rightarrow> real \<times> real \<Rightarrow> Line" where
  "scaleLine ((x0, y0), (x1, y1)) (startRatio, endRatio) =
     (if x1 - x0 = 0 then
        ((x0, y0 + (y1 - y0) * startRatio), (x1, y0 + (y1 - y0) * endRatio))
      else if y1 - y0 = 0 then
        ((x0 + (x1 - x0) * startRatio, y0), (x0 + (x1 - x0) * endRatio, y1))
      else ((x0, y0), (x1, y1)))"

definition animateLine :: "(real \<Rightarrow> real) \<Rightarrow> Line \<Rightarrow> AnimateLineType \<Rightarrow> real \<Rightarrow> Line" where
  "animateLine easeOutElastic l type proportion =
     scaleLine l (animateRatios easeOutElastic type proportion)"

text \<open>
  \<open>lines.map((l) => animateLine(l, type, proportion))\<close>: on an \<open>undefined\<close> slot
  \<open>l[1][0]\<close> throws.
\<close>

definition animateLines ::
  "(real \<Rightarrow> real) \<Rightarrow> Line option list \<Rightarrow> AnimateLineType \<Rightarrow> real \<Rightarrow> error + Line option list" where
  "animateLines easeOutElastic lines type proportion =
     sequenceE (map (\<lambda>l. case l of None \<Rightarrow> Inl TypeError
                              | Some l' \<Rightarrow> Inr (Some (animateLine easeOutElastic l' type proportion)))
                    lines)"

section \<open>The timeline animation engine (\<open>getAnimatedLinesWithAnimations\<close>)\<close>

text \<open>
  \<open>Animation\<close> of \<open>types.d.ts\<close>; its \<open>type\<close> field is \<open>atype\<close>. Of \<open>props\<close> only
  \<open>lineIndex\<close> is read; it is \<open>None\<close> where \<open>props\<close> has no such field.
\<close>

datatype Animation = Animation
  (startDelayInTicks: real)
  (durationInTicks: real)
  (endDelayInTicks: real)
  (lineIndex: "nat option")
  (atype: string)
  (subAnimations: "Animation list")

definition completeTicksDuration :: "Animation \<Rightarrow> real" where
  "completeTicksDuration anim =
     startDelayInTicks anim + durationInTicks anim + endDelayInTicks anim"

definition animationSequence :: "AnimateLineType list" where
  "animationSequence = [StartExpand, StartSuck, EndSuck, EndExpand]"

text \<open>
  The \<open>breath\<close> branch, on \<open>relativeTickToDuration\<close>. With a zero quarter duration
  the index is not a number in \<open>0..3\<close>, so the type is \<open>undefined\<close> and the proportion
  is never read.
\<close>

definition breathStep :: "real \<Rightarrow> real \<Rightarrow> AnimateLineType \<times> real" where
  "breathStep duration relativeTickToDuration =
     (let sequenceDurationInTicks = duration / real (length animationSequence)
      in case js_mod relativeTickToDuration sequenceDurationInTicks of
           None \<Rightarrow> (NoType, 0)
         | Some m \<Rightarrow>
             (let proportion = m / sequenceDurationInTicks;
                  animationIndex = \<lfloor>relativeTickToDuration / sequenceDurationInTicks\<rfloor>
              in if 0 \<le> animationIndex \<and> animationIndex < int (length animationSequence)
                 then (animationSequence ! nat animationIndex, proportion)
                 else (NoType, proportion)))"

fun getAnimatedLinesWithAnimations ::
  "(real \<Rightarrow> real) \<Rightarrow> Line option list \<Rightarrow> real \<Rightarrow> Animation \<Rightarrow> error + Line option list" where
  "getAnimatedLinesWithAnimations easeOutElastic lines tick (Animation sd d ed idx ty subs) =
     (let complete = sd + d + ed
      in case js_mod tick complete of
           None \<Rightarrow> Inr lines
         | Some relativeTick \<Rightarrow>
             if relativeTick < sd then animateLines easeOutElastic lines Static 1
             else if relativeTick \<ge> sd \<and> relativeTick < complete - ed then
               (if ty = ''timeline'' then
                  map_sum id concat
                    (sequenceE
                       (map (\<lambda>a. getAnimatedLinesWithAnimations easeOutElastic
                                    [js_index lines (lineIndex a)] (relativeTick - sd) a)
                            subs))
                else if ty = ''breath'' then
                  (case breathStep d (relativeTick - sd) of
                     (type, proportion) \<Rightarrow> animateLines easeOutElastic lines type proportion)
                else animateLines easeOutElastic lines Static 1)
             else if relativeTick \<ge> complete - ed then
               animateLines easeOutElastic lines Static 1
             else Inr lines)"

section \<open>The seeded random source\<close>

text \<open>
  \<open>rand\<close> is \<open>seedrandom(gene.seed)\<close>; \<open>random\<close> and \<open>randomByWeights\<close> come from
  \<open>randomRangeFactory(rand)\<close> of \<open>utils/random\<close>. Each call reads and advances the
  generator, so each is a function from the generator's state \<open>'s\<close> to an outcome and
  the next state. \<open>randomInt lo hi\<close> is \<open>random(lo, hi, 'int')\<close>. None of the three is
  defined in the sources at hand: they are parameters of everything below.
\<close>

record 's RandomRange =
  rand :: "'s \<Rightarrow> real \<times> 's"
  randomInt :: "int \<Rightarrow> int \<Rightarrow> 's \<Rightarrow> int \<times> 's"
  randomByWeights :: "real list \<Rightarrow> 's \<Rightarrow> int \<times> 's"

section \<open>The grid partitioner (\<open>generateGridPartitioningInGridUnits\<close>)\<close>

text \<open>
  Grid-unit coordinates are integers: the bound is \<open>[0,0]..[w-1,h-1]\<close> and every cut
  is drawn in \<open>'int'\<close> mode. The recursion of the source need not end for every
  random source (a cut outside the region can hand the same region down again), so the
  model counts the depth of the calls: \<open>None\<close> when the depth \<open>fuel\<close> does not suffice.
  The calls read the generator in the source's order: \<open>rand()\<close>, then the cut, then
  the top-or-left part, then the bottom-or-right part.
\<close>

type_synonym GCord = "int \<times> int"
type_synonym GLine = "GCord \<times> GCord"

text \<open>
  The pieces of the general case, named as in the source: the cutting line from
  \<open>startPt\<close> to \<open>endPt\<close>, the two parts beside it, the validity test of a part and
  the ratio handed down.
\<close>

definition cutLine :: "bool \<Rightarrow> int \<Rightarrow> GCord \<Rightarrow> GCord \<Rightarrow> GLine" where
  "cutLine isVert drawn topLeft bottomRight =
     (let startPt = (if isVert then drawn else fst topLeft,
                     if isVert then snd topLeft else drawn);
          endPt = (if isVert then fst startPt else fst bottomRight,
                   if isVert then snd bottomRight else snd startPt)
      in (startPt, endPt))"

definition topOrLeftRect :: "bool \<Rightarrow> GLine \<Rightarrow> GCord \<Rightarrow> GCord \<times> GCord" where
  "topOrLeftRect isVert line topLeft =
     (topLeft, (fst (snd line) - (if isVert then 1 else 0),
                snd (snd line) - (if isVert then 0 else 1)))"

definition bottomOrRightRect :: "bool \<Rightarrow> GLine \<Rightarrow> GCord \<Rightarrow> GCord \<times> GCord" where
  "bottomOrRightRect isVert line bottomRight =
     ((fst (fst line) + (if isVert then 1 else 0),
       snd (fst line) + (if isVert then 0 else 1)), bottomRight)"

definition isRectValid :: "GCord \<times> GCord \<Rightarrow> bool" where
  "isRectValid r = (fst (snd r) \<ge> fst (fst r) \<and> snd (snd r) \<ge> snd (fst r))"

definition nextRatio :: "bool \<Rightarrow> real \<Rightarrow> real" where
  "nextRatio isVert vertOrHorzRatio =
     (if \<not> isVert then vertOrHorzRatio / 2
      else vertOrHorzRatio + (1 - vertOrHorzRatio) / 2)"

primrec generateGridPartitioningInGridUnits ::
  "'s RandomRange \<Rightarrow> nat \<Rightarrow> GCord \<Rightarrow> GCord \<Rightarrow> real \<Rightarrow> 's \<Rightarrow> (GLine list \<times> 's) option" where
  "generateGridPartitioningInGridUnits R 0 topLeft bottomRight vertOrHorzRatio s = None"
| "generateGridPartitioningInGridUnits R (Suc fuel) topLeft bottomRight vertOrHorzRatio s =
     (if fst bottomRight - fst topLeft = 0 \<and> snd bottomRight - snd topLeft = 0
      then Some ([(topLeft, bottomRight)], s)
      else
        let isVert = (fst (rand R s) > vertOrHorzRatio);
            s1 = snd (rand R s)
        in
        if (fst bottomRight - fst topLeft = 1 \<and> snd bottomRight - snd topLeft = 0) \<or>
           (fst bottomRight - fst topLeft = 0 \<and> snd bottomRight - snd topLeft = 1)
        then Some ([(topLeft, topLeft), (bottomRight, bottomRight)], s1)
        else if fst bottomRight - fst topLeft = 1 \<and> snd bottomRight - snd topLeft = 1
        then
          (if isVert
           then Some ([(topLeft, (fst bottomRight - 1, snd bottomRight)),
                       ((fst topLeft + 1, snd topLeft), bottomRight)], s1)
           else Some ([(topLeft, (fst bottomRight, snd bottomRight - 1)),
                       ((fst topLeft, snd topLeft + 1), bottomRight)], s1))
        else
          let drawn = (if isVert then randomInt R (fst topLeft + 1) (fst bottomRight) s1
                       else randomInt R (snd topLeft + 1) (snd bottomRight) s1);
              line = cutLine isVert (fst drawn) topLeft bottomRight;
              before = topOrLeftRect isVert line topLeft;
              after = bottomOrRightRect isVert line bottomRight;
              ratio = nextRatio isVert vertOrHorzRatio
          in
          case (if isRectValid before
                then generateGridPartitioningInGridUnits R fuel (fst before) (snd before) ratio
                       (snd drawn)
                else Some ([], snd drawn)) of
            None \<Rightarrow> None
          | Some (ls, s3) \<Rightarrow>
              (case (if isRectValid after
                     then generateGridPartitioningInGridUnits R fuel (fst after) (snd after) ratio s3
                     else Some ([], s3)) of
                 None \<Rightarrow> None
               | Some (rs, s4) \<Rightarrow> Some (ls @ [line] @ rs, s4)))"

text \<open>The grid cells a line stands for: the block between its two endpoints.\<close>

definition cells :: "GLine \<Rightarrow> GCord set" where
  "cells l = {fst (fst l) .. fst (snd l)} \<times> {snd (fst l) .. snd (snd l)}"

fun disjointCells :: "GLine list \<Rightarrow> bool" where
  "disjointCells [] = True"
| "disjointCells (l # ls) = (cells l \<inter> (\<Union>k \<in> set ls. cells k) = {} \<and> disjointCells ls)"

text \<open>
  A line sequence tiles the region from \<open>p\<close> to \<open>q\<close> when its lines are axis-aligned
  blocks, no two of them share a cell, and together they are the cells of the region.
\<close>

definition axisAligned :: "GLine \<Rightarrow> bool" where
  "axisAligned l = (fst (fst l) \<le> fst (snd l) \<and> snd (fst l) \<le> snd (snd l) \<and>
                    (fst (fst l) = fst (snd l) \<or> snd (fst l) = snd (snd l)))"

definition tiles :: "GLine list \<Rightarrow> GCord \<Rightarrow> GCord \<Rightarrow> bool" where
  "tiles ls p q = ((\<Union>l \<in> set ls. cells l) = cells (p, q) \<and> disjointCells ls \<and>
                   (\<forall>l \<in> set ls. axisAligned l))"

text \<open>A grid line as the converter and the animation read it.\<close>

definition toLine :: "GLine \<Rightarrow> Line" where
  "toLine l = ((real_of_int (fst (fst l)), real_of_int (snd (fst l))),
               (real_of_int (fst (snd l)), real_of_int (snd (snd l))))"

section \<open>The rect converter (\<open>convertGridLinesToRects\<close>)\<close>

text \<open>
  \<open>gene.gridPartitioning\<close>: the gap and the unit size in pixels, the grid size as a
  count of units per axis. \<open>lineProps[i]\<close> holds the jitter ratio of line \<open>i\<close>.
\<close>

record GridPartitioning =
  gap :: real
  unitSize :: "real \<times> real"
  gridSizeInUnits :: "int \<times> int"

record LineProps =
  gitterRatio :: "real \<times> real"

definition totalGridBounds :: "GridPartitioning \<Rightarrow> real \<times> real" where
  "totalGridBounds gp =
     (fst (unitSize gp) * real_of_int (fst (gridSizeInUnits gp))
        + gap gp * (real_of_int (fst (gridSizeInUnits gp)) - 1),
      snd (unitSize gp) * real_of_int (snd (gridSizeInUnits gp))
        + gap gp * (real_of_int (snd (gridSizeInUnits gp)) - 1))"

text \<open>\<open>topLeft\<close> of the source; \<open>width\<close> and \<open>height\<close> are the sketch context's.\<close>

definition gridTopLeft :: "GridPartitioning \<Rightarrow> real \<Rightarrow> real \<Rightarrow> real \<times> real" where
  "gridTopLeft gp width height =
     ((width - fst (totalGridBounds gp)) / 2, (height - snd (totalGridBounds gp)) / 2)"

text \<open>The first \<open>map\<close>: one line and its \<open>lineProps[i]\<close>.\<close>

definition scaleToRect :: "GridPartitioning \<Rightarrow> Line \<Rightarrow> LineProps \<Rightarrow> Rect" where
  "scaleToRect gp l p =
     ((fst (fst l) * (fst (unitSize gp) + gap gp), snd (fst l) * (snd (unitSize gp) + gap gp)),
      ((fst (snd l) + fst (gitterRatio p)) * (fst (unitSize gp) + gap gp) - gap gp,
       (snd (snd l) + snd (gitterRatio p)) * (snd (unitSize gp) + gap gp) - gap gp))"

text \<open>The second \<open>map\<close>.\<close>

definition translateRect :: "real \<times> real \<Rightarrow> Rect \<Rightarrow> Rect" where
  "translateRect topLeft r =
     ((fst topLeft + fst (fst r), snd topLeft + snd (fst r)),
      (fst topLeft + fst (snd r), snd topLeft + snd (snd r)))"

text \<open>
  \<open>lineProps[i]\<close> is \<open>undefined\<close> for a line beyond the end of \<open>lineProps\<close>, and
  \<open>.gitterRatio\<close> throws there.
\<close>

definition convertGridLinesToRects ::
  "GridPartitioning \<Rightarrow> real \<Rightarrow> real \<Rightarrow> Line list \<Rightarrow> LineProps list \<Rightarrow> error + Rect list" where
  "convertGridLinesToRects gp width height lines lineProps =
     (if length lineProps < length lines then Inl TypeError
      else Inr (map (translateRect (gridTopLeft gp width height))
                  (map (\<lambda>(l, p). scaleToRect gp l p) (zip lines lineProps))))"

text \<open>The rectangle of a grid line whose jitter ratio is 1 on both axes.\<close>

definition fullRect :: "GridPartitioning \<Rightarrow> real \<Rightarrow> real \<Rightarrow> GLine \<Rightarrow> Rect" where
  "fullRect gp width height l =
     translateRect (gridTopLeft gp width height)
       (scaleToRect gp (toLine l) \<lparr> gitterRatio = (1, 1) \<rparr>)"

text \<open>
  The first \<open>map\<close> as the specification words it, for comparison with \<open>scaleToRect\<close>:
  both endpoints scaled by \<open>unitSize + gap\<close>, and the far corner then shifted inward by
  \<open>(1 - jitterRatio) * (unitSize + gap) - gap\<close>.
\<close>

definition specScaleToRect :: "GridPartitioning \<Rightarrow> Line \<Rightarrow> LineProps \<Rightarrow> Rect" where
  "specScaleToRect gp l p =
     ((fst (fst l) * (fst (unitSize gp) + gap gp), snd (fst l) * (snd (unitSize gp) + gap gp)),
      (fst (snd l) * (fst (unitSize gp) + gap gp)
         - ((1 - fst (gitterRatio p)) * (fst (unitSize gp) + gap gp) - gap gp),
       snd (snd l) * (snd (unitSize gp) + gap gp)
         - ((1 - snd (gitterRatio p)) * (snd (unitSize gp) + gap gp) - gap gp)))"

subsection \<open>Pixel geometry\<close>

text \<open>A point in a closed rectangle; two rectangles sharing an inner point.\<close>

definition inRect :: "Cord \<Rightarrow> Rect \<Rightarrow> bool" where
  "inRect p r = (fst (fst r) \<le> fst p \<and> fst p \<le> fst (snd r) \<and>
                 snd (fst r) \<le> snd p \<and> snd p \<le> snd (snd r))"

definition rectsOverlap :: "Rect \<Rightarrow> Rect \<Rightarrow> bool" where
  "rectsOverlap r q =
     (max (fst (fst r)) (fst (fst q)) < min (fst (snd r)) (fst (snd q)) \<and>
      max (snd (fst r)) (snd (fst q)) < min (snd (snd r)) (snd (snd q)))"

text \<open>The scaled grid bound in the canvas, and the square of one grid cell in it.\<close>

definition gridBoundRect :: "GridPartitioning \<Rightarrow> real \<Rightarrow> real \<Rightarrow> Rect" where
  "gridBoundRect gp width height =
     (gridTopLeft gp width height,
      (fst (gridTopLeft gp width height) + fst (totalGridBounds gp),
       snd (gridTopLeft gp width height) + snd (totalGridBounds gp)))"

definition cellRect :: "GridPartitioning \<Rightarrow> real \<Rightarrow> real \<Rightarrow> GCord \<Rightarrow> Rect" where
  "cellRect gp width height c =
     ((fst (gridTopLeft gp width height) + real_of_int (fst c) * (fst (unitSize gp) + gap gp),
       snd (gridTopLeft gp width height) + real_of_int (snd c) * (snd (unitSize gp) + gap gp)),
      (fst (gridTopLeft gp width height) + real_of_int (fst c) * (fst (unitSize gp) + gap gp)
         + fst (unitSize gp),
       snd (gridTopLeft gp width height) + real_of_int (snd c) * (snd (unitSize gp) + gap gp)
         + snd (unitSize gp)))"

definition rectInside :: "Rect \<Rightarrow> Rect \<Rightarrow> bool" where
  "rectInside r q = (inRect (fst r) q \<and> inRect (snd r) q)"

text \<open>
  An offset from the grid's top left lies in a gap strip when it is past the unit of the
  cell column (or row) it falls in: strictly between two neighbouring cells.
\<close>

definition inGapStrip :: "real \<Rightarrow> real \<Rightarrow> real \<Rightarrow> bool" where
  "inGapStrip unit g x = (real_of_int \<lfloor>x / (unit + g)\<rfloor> * (unit + g) + unit < x)"

definition inGap :: "GridPartitioning \<Rightarrow> real \<Rightarrow> real \<Rightarrow> Cord \<Rightarrow> bool" where
  "inGap gp width height p =
     (inGapStrip (fst (unitSize gp)) (gap gp) (fst p - fst (gridTopLeft gp width height)) \<or>
      inGapStrip (snd (unitSize gp)) (gap gp) (snd p - snd (gridTopLeft gp width height)))"

section \<open>The content assigner (\<open>rectProps\<close>)\<close>

text \<open>
  The palettes and the parts of the gene that the assigner reads. A palette's \<open>type\<close>
  field is \<open>ptype\<close>; \<open>colorRatios\<close> is empty for a gradient palette, which has none.
  The timing fields of the gene and of a rectangle's properties carry a prefix, the names
  without it being those of \<open>Animation\<close>.
\<close>

record ColorPallete =
  colors :: "string list"
  tintColors :: "string list"
  pointilism :: "real option"
  ptype :: string
  colorRatios :: "real list"

record Foreground =
  colorPointilism :: real
  colorPalletes :: "ColorPallete list"
  colorPalletesRatio :: "real list"
  colorSprinkleRatio :: real
  colorPalletesSprinkleRatio :: "real list"

record AnimationGene =
  geneStartDelayInTicks :: real
  geneEndDelayInTicks :: real
  breathDurationInTicksPerUnit :: real
  bloomMaxStartDelayInTicks :: real

record RectProps =
  fromColor :: "string option"
  toColor :: "string option"
  tintColor :: "string option"
  rectPointilism :: "real option"
  isVert :: bool
  zIndex :: nat
  rectStartDelayInTicks :: real
  breathDurationInTicks :: real


text \<open>
  The loop of the \<open>colorPalleteIndex\<close> closure, from index \<open>i\<close> on, and the closure:
  the value is \<open>min(|noise| / 0.7, 0.99)\<close>, with the doubles that \<open>0.7\<close> and \<open>0.99\<close> are.
\<close>

fun paletteWalk :: "real \<Rightarrow> real list \<Rightarrow> int \<Rightarrow> int" where
  "paletteWalk v [] i = - 1"
| "paletteWalk v (r # rs) i = (if v < r then i else paletteWalk (v - r) rs (i + 1))"

definition colorPalleteNormalizedValue :: "real \<Rightarrow> real" where
  "colorPalleteNormalizedValue noise = min (\<bar>noise\<bar> / double_0_7) double_0_99"

definition colorPalleteIndex :: "real \<Rightarrow> real list \<Rightarrow> int" where
  "colorPalleteIndex noise ratios = paletteWalk (colorPalleteNormalizedValue noise) ratios 0"


text \<open>
  The sprinkle override: \<open>rand()\<close> is always read; below \<open>colorSprinkleRatio\<close> the
  index found by the walk is replaced by \<open>randomByWeights(colorPalletesSprinkleRatio)\<close>.
\<close>

definition selectPallete :: "'s RandomRange \<Rightarrow> Foreground \<Rightarrow> int \<Rightarrow> 's \<Rightarrow> int \<times> 's" where
  "selectPallete R fg walked s =
     (if fst (rand R s) < colorSprinkleRatio fg
      then randomByWeights R (colorPalletesSprinkleRatio fg) (snd (rand R s))
      else (walked, snd (rand R s)))"


section \<open>Building the timeline (\<open>timelineAnimation\<close>)\<close>

text \<open>\<open>Math.max(...(x # xs))\<close>, folding from the left.\<close>

fun mathMaxFrom :: "real \<Rightarrow> real list \<Rightarrow> real" where
  "mathMaxFrom m [] = m"
| "mathMaxFrom m (x # xs) = mathMaxFrom (max m x) xs"

text \<open>
  The tree is made of real numbers here. With no rectangle at all \<open>Math.max()\<close> is
  \<open>-Infinity\<close>, and with a \<open>{}\<close> among the \<open>rectProps\<close> it is \<open>NaN\<close>: the tree
  the source builds then has durations that are no finite numbers, and the model gives
  \<open>None\<close> for it.
\<close>

definition timelineDuration :: "RectProps list \<Rightarrow> real option" where
  "timelineDuration rs =
     (case rs of [] \<Rightarrow> None
      | r # rest \<Rightarrow>
          Some (mathMaxFrom (rectStartDelayInTicks r) (map rectStartDelayInTicks rest)
                + mathMaxFrom (breathDurationInTicks r) (map breathDurationInTicks rest)))"

definition timelineAnimation :: "AnimationGene \<Rightarrow> RectProps option list \<Rightarrow> Animation option" where
  "timelineAnimation an rectProps =
     (case those rectProps of
        None \<Rightarrow> None
      | Some rs \<Rightarrow>
          (case timelineDuration rs of
             None \<Rightarrow> None
           | Some duration \<Rightarrow>
               Some (Animation (geneStartDelayInTicks an) duration (geneEndDelayInTicks an)
                       None ''timeline''
                       (map (\<lambda>(r, i).
                               Animation (rectStartDelayInTicks r) (breathDurationInTicks r)
                                 (duration - breathDurationInTicks r - rectStartDelayInTicks r)
                                 (Some i) ''breath'' [])
                            (zip rs [0 ..< length rs])))))"

section \<open>Example inputs\<close>

text \<open>
  A random source for the examples: \<open>rand()\<close> is always \<open>u\<close>, every cut falls on the
  far edge of its range, every weighted choice is index 0; the state counts the calls.
\<close>

definition fixedRandom :: "real \<Rightarrow> nat RandomRange" where
  "fixedRandom u = \<lparr> rand = (\<lambda>s. (u, Suc s)),
                     randomInt = (\<lambda>lo hi s. (hi, Suc s)),
                     randomByWeights = (\<lambda>ws s. (0, Suc s)) \<rparr>"

text \<open>The same, with every cut on the near end of its range.\<close>

definition lowEndRandom :: "real \<Rightarrow> nat RandomRange" where
  "lowEndRandom u = \<lparr> rand = (\<lambda>s. (u, Suc s)),
                      randomInt = (\<lambda>lo hi s. (lo, Suc s)),
                      randomByWeights = (\<lambda>ws s. (0, Suc s)) \<rparr>"

text \<open>The grid metrics of \<open>DEFAULT_GENE\<close>, for a grid of the given size.\<close>

definition defaultGrid :: "int \<times> int \<Rightarrow> GridPartitioning" where
  "defaultGrid units = \<lparr> gap = 50, unitSize = (50, 50), gridSizeInUnits = units \<rparr>"

text \<open>A foreground with one simple palette and the given palette ratios.\<close>

definition exampleForeground :: "real list \<Rightarrow> Foreground" where
  "exampleForeground ratios =
     \<lparr> colorPointilism = 1 / 100,
       colorPalletes = [\<lparr> colors = [''#056676'', ''#5eaaa8'', ''#a3d2ca''],
                          tintColors = [''#f6f5f5'', ''#f6f5f5'', ''#f6f5f5''],
                          pointilism = None, ptype = ''simple'',
                          colorRatios = [33 / 100, 33 / 100, 34 / 100] \<rparr>],
       colorPalletesRatio = ratios,
       colorSprinkleRatio = 1 / 100,
       colorPalletesSprinkleRatio = [1] \<rparr>"

definition defaultAnimation :: AnimationGene where
  "defaultAnimation = \<lparr> geneStartDelayInTicks = 1000, geneEndDelayInTicks = 0,
                         breathDurationInTicksPerUnit = 80, bloomMaxStartDelayInTicks = 300 \<rparr>"

section \<open>Properties of the animation engine\<close>

subsection \<open>Remainders\<close>

lemma js_mod_add_period:
  assumes "0 < c" "0 \<le> t"
  shows "js_mod (t + c) c = js_mod t c"
proof -
  have "(t + c) / c = t / c + 1" using assms by (simp add: field_simps)
  moreover have "0 \<le> t / c" using assms by simp
  ultimately have "js_trunc ((t + c) / c) = js_trunc (t / c) + 1"
    by (simp add: js_trunc_def)
  then show ?thesis using assms by (simp add: js_mod_def algebra_simps)
qed

lemma js_mod_small:
  assumes "0 \<le> t" "t < c"
  shows "js_mod t c = Some t"
proof -
  have "0 \<le> t / c" "t / c < 1" using assms by simp_all
  then have "\<lfloor>t / c\<rfloor> = 0" by linarith
  then show ?thesis using assms by (simp add: js_mod_def js_trunc_def)
qed

lemma js_mod_self:
  assumes "0 < c"
  shows "js_mod c c = Some 0"
  using assms by (simp add: js_mod_def js_trunc_def)

subsection \<open>Looping\<close>

text \<open>
  Claim C3 (loop idempotence). For every line sequence, every animation tree whose total
  duration \<open>startDelayInTicks + durationInTicks + endDelayInTicks\<close> is positive and
  every tick \<open>\<ge> 0\<close>, \<open>getAnimatedLinesWithAnimations\<close> returns at
  \<open>tick + completeTicksDuration\<close> what it returns at \<open>tick\<close>: the same geometry for
  all lines, or the same error.
\<close>

theorem loop_idempotence:
  assumes "0 < completeTicksDuration anim" and "0 \<le> tick"
  shows "getAnimatedLinesWithAnimations ease lines (tick + completeTicksDuration anim) anim =
         getAnimatedLinesWithAnimations ease lines tick anim"
proof (cases anim)
  case (Animation sd d ed idx ty subs)
  with assms have "js_mod (tick + (sd + d + ed)) (sd + d + ed) = js_mod tick (sd + d + ed)"
    by (simp add: completeTicksDuration_def js_mod_add_period)
  then show ?thesis using Animation
    by (simp add: completeTicksDuration_def)
qed

theorem loop_idempotence_witness:
  "getAnimatedLinesWithAnimations (\<lambda>x. x) [Some ((0, 0), (0, 4)), Some ((1, 0), (3, 0))] 13
     (Animation 1 8 1 None ''timeline''
        [Animation 0 8 0 (Some 0) ''breath'' [], Animation 4 4 0 (Some 1) ''breath'' []])
   = Inr [Some ((0, 4), (0, 4)), Some ((1, 0), (3, 0))]"
proof -
  let ?root = "Animation 1 8 1 None ''timeline''
        [Animation 0 8 0 (Some 0) ''breath'' [], Animation 4 4 0 (Some 1) ''breath'' []]"
  let ?lines = "[Some ((0, 0), (0, 4)), Some ((1, 0), (3, 0))] :: Line option list"
  have "getAnimatedLinesWithAnimations (\<lambda>x. x) ?lines (3 + completeTicksDuration ?root) ?root
        = getAnimatedLinesWithAnimations (\<lambda>x. x) ?lines 3 ?root"
    using loop_idempotence [of ?root 3 "\<lambda>x. x" ?lines]
    by (simp add: completeTicksDuration_def del: getAnimatedLinesWithAnimations.simps)
  moreover have "getAnimatedLinesWithAnimations (\<lambda>x. x) ?lines 3 ?root
        = Inr [Some ((0, 4), (0, 4)), Some ((1, 0), (3, 0))]"
    by (simp add: js_mod_def js_trunc_def js_index_def breathStep_def animationSequence_def
                  animateLines_def animateLine_def)
  ultimately show ?thesis
    by (simp add: completeTicksDuration_def del: getAnimatedLinesWithAnimations.simps)
qed

subsection \<open>Diagonal lines\<close>

text \<open>
  Claim C9. For every line whose two coordinate deltas are both nonzero, \<open>animateLine\<close>
  returns the line as it is, for every animation type and every proportion: a value, never
  an error.
\<close>

theorem diagonal_noop:
  assumes "x1 - x0 \<noteq> 0" and "y1 - y0 \<noteq> 0"
  shows "animateLine ease ((x0, y0), (x1, y1)) type proportion = ((x0, y0), (x1, y1)) \<and>
         animateLines ease [Some ((x0, y0), (x1, y1))] type proportion
           = Inr [Some ((x0, y0), (x1, y1))]"
proof -
  have "animateLine ease ((x0, y0), (x1, y1)) type proportion = ((x0, y0), (x1, y1))"
    using assms by (cases "animateRatios ease type proportion") (simp add: animateLine_def)
  then show ?thesis by (simp add: animateLines_def)
qed

theorem diagonal_noop_witness:
  "animateLine (\<lambda>x. x * x) ((0, 0), (2, 3)) EndSuck (1 / 2) = ((0, 0), (2, 3)) \<and>
   animateLines (\<lambda>x. x * x) [Some ((0, 0), (2, 3))] EndSuck (1 / 2) = Inr [Some ((0, 0), (2, 3))]"
  using diagonal_noop [of 2 0 3 0 "\<lambda>x. x * x" EndSuck "1 / 2"] by simp

subsection \<open>The breath cycle\<close>

lemma animateLine_open:
  "animateLine ease l Static 1 = l"
proof -
  obtain x0 y0 x1 y1 where "l = ((x0, y0), (x1, y1))"
    by (metis prod.collapse)
  then show ?thesis by (simp add: animateLine_def)
qed

lemma animateLines_open:
  "animateLines ease [Some l] Static 1 = Inr [Some l]"
  by (simp add: animateLines_def animateLine_open)

lemma breathStep_start:
  assumes "0 < d"
  shows "breathStep d 0 = (StartExpand, 0)"
  using assms by (simp add: breathStep_def js_mod_def js_trunc_def animationSequence_def)

lemma animateLine_start_expand_0:
  assumes "ease 0 = 0"
  shows "animateLine ease l StartExpand 0 = l"
proof -
  obtain x0 y0 x1 y1 where "l = ((x0, y0), (x1, y1))"
    by (metis prod.collapse)
  then show ?thesis using assms by (simp add: animateLine_def)
qed

lemma breath_at_zero:
  assumes "ease 0 = 0" "0 \<le> sd" "0 \<le> d" "0 \<le> ed"
  shows "getAnimatedLinesWithAnimations ease [Some l] 0 (Animation sd d ed idx ''breath'' subs)
         = Inr [Some l]"
proof (cases "sd + d + ed = 0")
  case True
  then show ?thesis by (simp add: js_mod_def)
next
  case False
  then have m: "js_mod 0 (sd + d + ed) = Some 0" by (simp add: js_mod_def js_trunc_def)
  show ?thesis
  proof (cases "0 < sd")
    case True
    then show ?thesis using m by (simp add: animateLines_open)
  next
    case sd0: False
    with assms have sd: "sd = 0" by simp
    show ?thesis
    proof (cases "0 < d")
      case True
      then show ?thesis using m sd assms
        by (simp add: breathStep_start animateLines_def animateLine_start_expand_0)
    next
      case False
      then show ?thesis using m sd assms by (simp add: animateLines_open)
    qed
  qed
qed

lemma breath_hold_pre:
  assumes "0 \<le> t" "t < sd" "0 \<le> d" "0 \<le> ed"
  shows "getAnimatedLinesWithAnimations ease [Some l] t (Animation sd d ed idx ''breath'' subs)
         = Inr [Some l]"
proof -
  have "js_mod t (sd + d + ed) = Some t" using assms by (intro js_mod_small) simp_all
  then show ?thesis using assms by (simp add: animateLines_open)
qed

lemma breath_hold_post:
  assumes "0 \<le> sd" "0 \<le> d" "sd + d \<le> t" "t < sd + d + ed"
  shows "getAnimatedLinesWithAnimations ease [Some l] t (Animation sd d ed idx ''breath'' subs)
         = Inr [Some l]"
proof -
  have "js_mod t (sd + d + ed) = Some t" using assms by (intro js_mod_small) simp_all
  then show ?thesis using assms by (simp add: animateLines_open)
qed

lemma breath_at_start:
  assumes "ease 0 = 0" "0 \<le> sd" "0 \<le> d" "0 \<le> ed"
  shows "getAnimatedLinesWithAnimations ease [Some l] sd (Animation sd d ed idx ''breath'' subs)
         = Inr [Some l]"
proof (cases "0 < d + ed")
  case True
  then have m: "js_mod sd (sd + d + ed) = Some sd" using assms by (intro js_mod_small) simp_all
  show ?thesis
  proof (cases "0 < d")
    case True
    then show ?thesis using m assms
      by (simp add: breathStep_start animateLines_def animateLine_start_expand_0)
  next
    case False
    then show ?thesis using m assms by (simp add: animateLines_open)
  qed
next
  case False
  with assms have z: "d = 0" "ed = 0" by simp_all
  show ?thesis
  proof (cases "sd = 0")
    case True
    then show ?thesis using z by (simp add: js_mod_def)
  next
    case False
    with assms have "0 < sd" by simp
    then have "js_mod sd (sd + d + ed) = Some 0" using z by (simp add: js_mod_self)
    then show ?thesis using \<open>0 < sd\<close> by (simp add: animateLines_open)
  qed
qed

lemma breath_at_end:
  assumes "ease 0 = 0" "0 \<le> sd" "0 \<le> d" "0 \<le> ed"
  shows "getAnimatedLinesWithAnimations ease [Some l] (sd + d) (Animation sd d ed idx ''breath'' subs)
         = Inr [Some l]"
proof (cases "0 < ed")
  case True
  then show ?thesis using assms by (intro breath_hold_post) simp_all
next
  case False
  with assms have ed: "ed = 0" by simp
  show ?thesis
  proof (cases "sd + d = 0")
    case True
    then show ?thesis using ed by (simp add: js_mod_def)
  next
    case False
    with assms have pos: "0 < sd + d" by simp
    have "js_mod (0 + (sd + d + ed)) (sd + d + ed) = js_mod 0 (sd + d + ed)"
      using pos ed by (intro js_mod_add_period) simp_all
    then have "getAnimatedLinesWithAnimations ease [Some l] (sd + d) (Animation sd d ed idx ''breath'' subs)
      = getAnimatedLinesWithAnimations ease [Some l] 0 (Animation sd d ed idx ''breath'' subs)"
      using ed by simp
    then show ?thesis using breath_at_zero[of ease sd d ed l idx subs] assms by simp
  qed
qed

lemma breathStep_phase:
  assumes "0 < d" "k < 4" "real k * (d / 4) \<le> r" "r < (real k + 1) * (d / 4)"
  shows "breathStep d r = (animationSequence ! k, (r - real k * (d / 4)) / (d / 4))"
proof -
  have q: "0 < d / 4" using assms by simp
  have lo: "real k \<le> r / (d / 4)" using assms q by (simp add: pos_le_divide_eq)
  have hi: "r / (d / 4) < real k + 1" using assms(4) q by (simp only: pos_divide_less_eq)
  have fl: "\<lfloor>r / (d / 4)\<rfloor> = int k" using lo hi by linarith
  have "0 \<le> r / (d / 4)" using lo by (meson of_nat_0_le_iff order_trans)
  then have tr: "js_trunc (r / (d / 4)) = int k" using fl by (simp add: js_trunc_def)
  have m: "js_mod r (d / 4) = Some (r - real k * (d / 4))"
    using q tr by (simp add: js_mod_def algebra_simps)
  have len: "length animationSequence = 4" by (simp add: animationSequence_def)
  show ?thesis
    unfolding breathStep_def Let_def len using m fl assms(2) by simp
qed

lemma breath_active:
  assumes "0 < d" "0 \<le> sd" "0 \<le> ed" "0 \<le> r" "r < d"
  shows "getAnimatedLinesWithAnimations ease lines (sd + r) (Animation sd d ed idx ''breath'' subs)
         = (case breathStep d r of (type, proportion) \<Rightarrow> animateLines ease lines type proportion)"
proof -
  have "js_mod (sd + r) (sd + d + ed) = Some (sd + r)" using assms by (intro js_mod_small) simp_all
  then show ?thesis using assms by simp
qed

text \<open>
  Claim C4 (animation boundary continuity). For a breath node with non-negative delays and
  duration, and an easing curve that starts at \<open>easeOutElastic(0) = 0\<close>, the line
  evaluated at \<open>tick = startDelay\<close> and at \<open>tick = startDelay + duration\<close> is the
  fully open line, that is the line itself; it is what the static hold
  \<open>animateLine(l, 'static', 1)\<close> gives, and what every tick of the pre-start hold and of
  the post-end hold gives.
\<close>

theorem breath_boundary_continuity:
  assumes "ease 0 = 0" and "0 \<le> sd" and "0 \<le> d" and "0 \<le> ed"
  shows "getAnimatedLinesWithAnimations ease [Some l] sd (Animation sd d ed idx ''breath'' subs)
           = Inr [Some l] \<and>
         getAnimatedLinesWithAnimations ease [Some l] (sd + d) (Animation sd d ed idx ''breath'' subs)
           = Inr [Some l] \<and>
         animateLine ease l Static 1 = l \<and>
         (\<forall>t. 0 \<le> t \<and> t < sd \<longrightarrow>
            getAnimatedLinesWithAnimations ease [Some l] t (Animation sd d ed idx ''breath'' subs)
              = Inr [Some l]) \<and>
         (\<forall>t. sd + d \<le> t \<and> t < sd + d + ed \<longrightarrow>
            getAnimatedLinesWithAnimations ease [Some l] t (Animation sd d ed idx ''breath'' subs)
              = Inr [Some l])"
  using breath_at_start [of ease sd d ed l idx subs] breath_at_end [of ease sd d ed l idx subs]
    breath_hold_pre [of _ sd d ed ease l idx subs] breath_hold_post [of sd d _ ed ease l idx subs]
    assms
  by (simp add: animateLine_open del: getAnimatedLinesWithAnimations.simps)

theorem breath_boundary_continuity_witness:
  "getAnimatedLinesWithAnimations (\<lambda>x. x * x) [Some ((0, 0), (0, 8))] 2
        (Animation 2 40 3 None ''breath'' [])
     = Inr [Some ((0, 0), (0, 8))] \<and>
   getAnimatedLinesWithAnimations (\<lambda>x. x * x) [Some ((0, 0), (0, 8))] 42
        (Animation 2 40 3 None ''breath'' [])
     = Inr [Some ((0, 0), (0, 8))]"
  using breath_boundary_continuity [of "\<lambda>x. x * x" 2 40 3 "((0, 0), (0, 8))" None "[]"]
  by (simp del: getAnimatedLinesWithAnimations.simps)

text \<open>
  The easing curve has to start at 0 for this: with a curve that is \<open>1/2\<close> at 0 the node
  shows half the line at \<open>tick = startDelay\<close>.
\<close>

lemma breath_start_with_other_easing:
  "getAnimatedLinesWithAnimations (\<lambda>x. 1 / 2) [Some ((0, 0), (0, 8))] 2
        (Animation 2 40 3 None ''breath'' [])
     = Inr [Some ((0, 4), (0, 8))]"
  by (simp add: js_mod_def js_trunc_def breathStep_def animationSequence_def
        animateLines_def animateLine_def)

text \<open>
  Claim C5. In its active phase a breath node splits its duration into four quarters of
  equal length, in the order start-expand, start-suck, end-suck, end-expand; at
  \<open>relativeTick\<close> \<open>r\<close> in quarter \<open>k\<close> the lines are animated with the \<open>k\<close>-th type
  and the fraction of the quarter that has passed. With a duration of 40 and \<open>r = 5\<close>
  the type is start-expand and the proportion \<open>1/2\<close>, so \<open>startRatio\<close> is
  \<open>easeOutElastic(0.5)\<close> and \<open>endRatio\<close> is 1.
\<close>

theorem breath_subphases:
  assumes "0 < d" "0 \<le> sd" "0 \<le> ed" "k < 4" "real k * (d / 4) \<le> r" "r < (real k + 1) * (d / 4)"
  shows "animationSequence = [StartExpand, StartSuck, EndSuck, EndExpand] \<and>
         getAnimatedLinesWithAnimations ease lines (sd + r) (Animation sd d ed idx ''breath'' subs)
           = animateLines ease lines (animationSequence ! k) ((r - real k * (d / 4)) / (d / 4)) \<and>
         breathStep 40 5 = (StartExpand, 1 / 2) \<and>
         animateRatios ease StartExpand (1 / 2) = (ease (1 / 2), 1) \<and>
         getAnimatedLinesWithAnimations ease [Some l] (sd + 5) (Animation sd 40 ed idx ''breath'' subs)
           = Inr [Some (scaleLine l (ease (1 / 2), 1))]"
proof -
  have r0: "0 \<le> r" using assms by (meson divide_nonneg_nonneg mult_nonneg_nonneg of_nat_0_le_iff order_trans less_imp_le zero_le_numeral)
  have "real k + 1 \<le> 4" using assms(4) by simp
  then have "(real k + 1) * (d / 4) \<le> 4 * (d / 4)" using assms(1) by (intro mult_right_mono) simp_all
  then have rd: "r < d" using assms(6) by simp
  have ex: "breathStep 40 5 = (StartExpand, 1 / 2)"
    using breathStep_phase[of 40 0 5] by (simp add: animationSequence_def)
  have "getAnimatedLinesWithAnimations ease [Some l] (sd + 5) (Animation sd 40 ed idx ''breath'' subs)
        = (case breathStep 40 5 of (type, proportion) \<Rightarrow> animateLines ease [Some l] type proportion)"
    using assms by (intro breath_active) simp_all
  then have ex2: "getAnimatedLinesWithAnimations ease [Some l] (sd + 5) (Animation sd 40 ed idx ''breath'' subs)
           = Inr [Some (scaleLine l (ease (1 / 2), 1))]"
    by (simp add: ex animateLines_def animateLine_def)
  show ?thesis
    using breath_active[OF assms(1,2,3) r0 rd, of ease lines idx subs] breathStep_phase[OF assms(1,4,5,6)] ex ex2
    by (simp add: animationSequence_def)
qed

theorem breath_subphases_witness:
  "getAnimatedLinesWithAnimations (\<lambda>x. x * x) [Some ((0, 0), (0, 8))] 37
        (Animation 2 40 3 None ''breath'' [])
     = Inr [Some ((0, 0), (0, 2))]"
proof -
  have "getAnimatedLinesWithAnimations (\<lambda>x. x * x) [Some ((0, 0), (0, 8))] (2 + 35)
          (Animation 2 40 3 None ''breath'' [])
        = animateLines (\<lambda>x. x * x) [Some ((0, 0), (0, 8))] (animationSequence ! 3)
            ((35 - real 3 * (40 / 4)) / (40 / 4))"
    using breath_subphases [of 40 2 3 3 35 "\<lambda>x. x * x" "[Some ((0, 0), (0, 8))]" None "[]"]
    by (simp del: getAnimatedLinesWithAnimations.simps)
  then show ?thesis
    by (simp del: getAnimatedLinesWithAnimations.simps
             add: animationSequence_def animateLines_def animateLine_def)
qed

section \<open>Properties of the grid partitioner\<close>

subsection \<open>The four cases of one call\<close>

lemma gen_dot:
  assumes "fst q - fst p = 0" "snd q - snd p = 0"
  shows "generateGridPartitioningInGridUnits R (Suc n) p q ratio s = Some ([(p, q)], s)"
  using assms by simp

lemma gen_1x2:
  assumes "(fst q - fst p = 1 \<and> snd q - snd p = 0) \<or> (fst q - fst p = 0 \<and> snd q - snd p = 1)"
  shows "generateGridPartitioningInGridUnits R (Suc n) p q ratio s
         = Some ([(p, p), (q, q)], snd (rand R s))"
  using assms by (auto simp: Let_def)

lemma gen_2x2:
  assumes "fst q - fst p = 1" "snd q - snd p = 1"
  shows "generateGridPartitioningInGridUnits R (Suc n) p q ratio s
         = Some (if fst (rand R s) > ratio
                 then [(p, (fst q - 1, snd q)), ((fst p + 1, snd p), q)]
                 else [(p, (fst q, snd q - 1)), ((fst p, snd p + 1), q)],
                 snd (rand R s))"
  using assms by (simp add: Let_def)

lemma gen_general:
  assumes "\<not> (fst q - fst p = 0 \<and> snd q - snd p = 0)"
    "\<not> ((fst q - fst p = 1 \<and> snd q - snd p = 0) \<or> (fst q - fst p = 0 \<and> snd q - snd p = 1))"
    "\<not> (fst q - fst p = 1 \<and> snd q - snd p = 1)"
    "v = (fst (rand R s) > ratio)"
    "drawn = (if v then randomInt R (fst p + 1) (fst q) (snd (rand R s))
              else randomInt R (snd p + 1) (snd q) (snd (rand R s)))"
    "line = cutLine v (fst drawn) p q"
  shows "generateGridPartitioningInGridUnits R (Suc n) p q ratio s
         = (case (if isRectValid (topOrLeftRect v line p)
                  then generateGridPartitioningInGridUnits R n (fst (topOrLeftRect v line p))
                         (snd (topOrLeftRect v line p)) (nextRatio v ratio) (snd drawn)
                  else Some ([], snd drawn)) of
              None \<Rightarrow> None
            | Some (ls, s3) \<Rightarrow>
              (case (if isRectValid (bottomOrRightRect v line q)
                     then generateGridPartitioningInGridUnits R n (fst (bottomOrRightRect v line q))
                            (snd (bottomOrRightRect v line q)) (nextRatio v ratio) s3
                     else Some ([], s3)) of
                 None \<Rightarrow> None
               | Some (rs, s4) \<Rightarrow> Some (ls @ [line] @ rs, s4)))"
  unfolding assms(4,5,6)
  by (subst generateGridPartitioningInGridUnits.simps(2))
     (simp only: assms(1,2,3) if_False Let_def)

subsection \<open>Joining tilings\<close>

lemma disjointCells_append:
  "disjointCells (xs @ ys) =
     (disjointCells xs \<and> disjointCells ys \<and>
      (\<Union>l \<in> set xs. cells l) \<inter> (\<Union>l \<in> set ys. cells l) = {})"
  by (induction xs) auto

lemma tiles_Nil: "\<not> (fst p \<le> fst q \<and> snd p \<le> snd q) \<Longrightarrow> tiles [] p q"
  by (auto simp: tiles_def cells_def)

lemma tiles_join_vert:
  assumes "tiles ls p (c - 1, snd q)" "tiles rs (c + 1, snd p) q"
    "fst p \<le> c" "c \<le> fst q" "snd p \<le> snd q"
  shows "tiles (ls @ [((c, snd p), (c, snd q))] @ rs) p q"
proof -
  have L: "(\<Union>l \<in> set ls. cells l) = {fst p .. c - 1} \<times> {snd p .. snd q}"
    using assms(1) by (simp add: tiles_def cells_def)
  have R: "(\<Union>l \<in> set rs. cells l) = {c + 1 .. fst q} \<times> {snd p .. snd q}"
    using assms(2) by (simp add: tiles_def cells_def)
  have M: "cells ((c, snd p), (c, snd q)) = {c} \<times> {snd p .. snd q}"
    by (simp add: cells_def)
  have U: "{fst p .. c - 1} \<union> {c} \<union> {c + 1 .. fst q} = {fst p .. fst q}"
    using assms(3,4) by auto
  have "(\<Union>l \<in> set (ls @ [((c, snd p), (c, snd q))] @ rs). cells l)
        = ({fst p .. c - 1} \<union> {c} \<union> {c + 1 .. fst q}) \<times> {snd p .. snd q}"
    using L R M by auto
  then have 1: "(\<Union>l \<in> set (ls @ [((c, snd p), (c, snd q))] @ rs). cells l) = cells (p, q)"
    by (simp only: U) (simp add: cells_def)
  have 2: "disjointCells (ls @ [((c, snd p), (c, snd q))] @ rs)"
  proof -
    have "disjointCells ls" "disjointCells rs" using assms(1,2) by (simp_all add: tiles_def)
    then show ?thesis by (auto simp: disjointCells_append L R M)
  qed
  have 3: "\<forall>l \<in> set (ls @ [((c, snd p), (c, snd q))] @ rs). axisAligned l"
    using assms(1,2,5) by (auto simp: tiles_def axisAligned_def)
  show ?thesis using 1 2 3 by (simp add: tiles_def)
qed

lemma tiles_join_horz:
  assumes "tiles ls p (fst q, c - 1)" "tiles rs (fst p, c + 1) q"
    "snd p \<le> c" "c \<le> snd q" "fst p \<le> fst q"
  shows "tiles (ls @ [((fst p, c), (fst q, c))] @ rs) p q"
proof -
  have L: "(\<Union>l \<in> set ls. cells l) = {fst p .. fst q} \<times> {snd p .. c - 1}"
    using assms(1) by (simp add: tiles_def cells_def)
  have R: "(\<Union>l \<in> set rs. cells l) = {fst p .. fst q} \<times> {c + 1 .. snd q}"
    using assms(2) by (simp add: tiles_def cells_def)
  have M: "cells ((fst p, c), (fst q, c)) = {fst p .. fst q} \<times> {c}"
    by (simp add: cells_def)
  have U: "{snd p .. c - 1} \<union> {c} \<union> {c + 1 .. snd q} = {snd p .. snd q}"
    using assms(3,4) by auto
  have "(\<Union>l \<in> set (ls @ [((fst p, c), (fst q, c))] @ rs). cells l)
        = {fst p .. fst q} \<times> ({snd p .. c - 1} \<union> {c} \<union> {c + 1 .. snd q})"
    using L R M by auto
  then have 1: "(\<Union>l \<in> set (ls @ [((fst p, c), (fst q, c))] @ rs). cells l) = cells (p, q)"
    by (simp only: U) (simp add: cells_def)
  have 2: "disjointCells (ls @ [((fst p, c), (fst q, c))] @ rs)"
  proof -
    have "disjointCells ls" "disjointCells rs" using assms(1,2) by (simp_all add: tiles_def)
    then show ?thesis by (auto simp: disjointCells_append L R M)
  qed
  have 3: "\<forall>l \<in> set (ls @ [((fst p, c), (fst q, c))] @ rs). axisAligned l"
    using assms(1,2,5) by (auto simp: tiles_def axisAligned_def)
  show ?thesis using 1 2 3 by (simp add: tiles_def)
qed

lemma tiles_dot:
  assumes "fst q - fst p = 0" "snd q - snd p = 0"
  shows "tiles [(p, q)] p q"
  using assms by (simp add: tiles_def axisAligned_def)

lemma tiles_1x2:
  assumes "(fst q - fst p = 1 \<and> snd q - snd p = 0) \<or> (fst q - fst p = 0 \<and> snd q - snd p = 1)"
  shows "tiles [(p, p), (q, q)] p q"
proof -
  have "cells (p, p) \<union> cells (q, q) = cells (p, q)"
    using assms by (cases p; cases q) (auto simp: cells_def)
  moreover have "cells (p, p) \<inter> cells (q, q) = {}"
    using assms by (cases p; cases q) (auto simp: cells_def)
  ultimately show ?thesis by (simp add: tiles_def axisAligned_def)
qed

lemma tiles_2x2_vert:
  assumes "fst q - fst p = 1" "snd q - snd p = 1"
  shows "tiles [(p, (fst q - 1, snd q)), ((fst p + 1, snd p), q)] p q"
proof -
  have "cells (p, (fst q - 1, snd q)) \<union> cells ((fst p + 1, snd p), q) = cells (p, q)"
    using assms by (cases p; cases q) (auto simp: cells_def)
  moreover have "cells (p, (fst q - 1, snd q)) \<inter> cells ((fst p + 1, snd p), q) = {}"
    using assms by (cases p; cases q) (auto simp: cells_def)
  ultimately show ?thesis using assms by (simp add: tiles_def axisAligned_def)
qed

lemma tiles_2x2_horz:
  assumes "fst q - fst p = 1" "snd q - snd p = 1"
  shows "tiles [(p, (fst q, snd q - 1)), ((fst p, snd p + 1), q)] p q"
proof -
  have "cells (p, (fst q, snd q - 1)) \<union> cells ((fst p, snd p + 1), q) = cells (p, q)"
    using assms by (cases p; cases q) (auto simp: cells_def)
  moreover have "cells (p, (fst q, snd q - 1)) \<inter> cells ((fst p, snd p + 1), q) = {}"
    using assms by (cases p; cases q) (auto simp: cells_def)
  ultimately show ?thesis using assms by (simp add: tiles_def axisAligned_def)
qed

subsection \<open>The 2 by 2 block\<close>

lemma card_cells:
  "card (cells ((a, b), (c, d))) = nat (c - a + 1) * nat (d - b + 1)"
  by (simp add: cells_def card_cartesian_product)

text \<open>
  Claim C7. For a region whose extent is 1 in both directions the partitioner reads
  \<open>rand()\<close> once, compares it with the ratio, and returns two lines without a further
  call (a depth of one call suffices, and no cut is drawn): the two columns of the block
  when \<open>rand() > vertOrHorzRatio\<close>, the two rows otherwise. Either pair tiles the block,
  two cells each. For \<open>[0,0]..[1,1]\<close> with ratio \<open>0.5\<close> and a vertical outcome the lines
  are \<open>[[0,0],[0,1]]\<close> and \<open>[[1,0],[1,1]]\<close>.
\<close>

theorem block_2x2:
  assumes "fst q - fst p = 1" and "snd q - snd p = 1"
  shows "generateGridPartitioningInGridUnits R (Suc fuel) p q ratio s
           = Some (if fst (rand R s) > ratio
                   then [(p, (fst q - 1, snd q)), ((fst p + 1, snd p), q)]
                   else [(p, (fst q, snd q - 1)), ((fst p, snd p + 1), q)],
                   snd (rand R s)) \<and>
         tiles [(p, (fst q - 1, snd q)), ((fst p + 1, snd p), q)] p q \<and>
         tiles [(p, (fst q, snd q - 1)), ((fst p, snd p + 1), q)] p q \<and>
         card (cells (p, (fst q - 1, snd q))) = 2 \<and> card (cells ((fst p + 1, snd p), q)) = 2 \<and>
         card (cells (p, (fst q, snd q - 1))) = 2 \<and> card (cells ((fst p, snd p + 1), q)) = 2 \<and>
         (1 / 2 < fst (rand R s) \<longrightarrow>
            generateGridPartitioningInGridUnits R (Suc 0) (0, 0) (1, 1) (1 / 2) s
              = Some ([((0, 0), (0, 1)), ((1, 0), (1, 1))], snd (rand R s)))"
proof -
  obtain a b where p: "p = (a, b)" by (cases p)
  obtain c d where q: "q = (c, d)" by (cases q)
  have e: "c = a + 1" "d = b + 1" using assms by (simp_all add: p q)
  have cards: "card (cells (p, (fst q - 1, snd q))) = 2" "card (cells ((fst p + 1, snd p), q)) = 2"
    "card (cells (p, (fst q, snd q - 1))) = 2" "card (cells ((fst p, snd p + 1), q)) = 2"
    by (simp_all add: p q e card_cells)
  have ex: "1 / 2 < fst (rand R s) \<longrightarrow>
            generateGridPartitioningInGridUnits R (Suc 0) (0, 0) (1, 1) (1 / 2) s
              = Some ([((0, 0), (0, 1)), ((1, 0), (1, 1))], snd (rand R s))"
    using gen_2x2[of "(1, 1)" "(0, 0)" R 0 "1 / 2" s]
    by (simp del: generateGridPartitioningInGridUnits.simps)
  show ?thesis
    using gen_2x2[OF assms, of R fuel ratio s] tiles_2x2_vert[OF assms] tiles_2x2_horz[OF assms]
      cards ex
    by (simp del: generateGridPartitioningInGridUnits.simps)
qed

theorem block_2x2_witness:
  "generateGridPartitioningInGridUnits (fixedRandom (3 / 4)) (Suc 0) (0, 0) (1, 1) (1 / 2) 0
     = Some ([((0, 0), (0, 1)), ((1, 0), (1, 1))], Suc 0)"
  using block_2x2 [of "(1, 1)" "(0, 0)" "fixedRandom (3 / 4)" 0 "1 / 2" 0]
  by (simp add: fixedRandom_def del: generateGridPartitioningInGridUnits.simps)

subsection \<open>Every partition tiles its region\<close>

lemma sub_call:
  assumes IH: "\<And>p q ratio s. fst p \<le> fst q \<Longrightarrow> snd p \<le> snd q \<Longrightarrow>
                 nat (fst q - fst p) + nat (snd q - snd p) < n \<Longrightarrow>
                 \<exists>ls s'. generateGridPartitioningInGridUnits R n p q ratio s = Some (ls, s') \<and> tiles ls p q"
    and small: "isRectValid r \<Longrightarrow> nat (fst (snd r) - fst (fst r)) + nat (snd (snd r) - snd (fst r)) < n"
  shows "\<exists>ls s'. (if isRectValid r
                   then generateGridPartitioningInGridUnits R n (fst r) (snd r) ratio s
                   else Some ([], s)) = Some (ls, s') \<and> tiles ls (fst r) (snd r)"
proof (cases "isRectValid r")
  case True
  then have "fst (fst r) \<le> fst (snd r)" "snd (fst r) \<le> snd (snd r)"
    by (simp_all add: isRectValid_def)
  then show ?thesis using IH[of "fst r" "snd r" ratio s] small True by simp
next
  case False
  then have "tiles [] (fst r) (snd r)" by (intro tiles_Nil) (simp add: isRectValid_def)
  then show ?thesis using False by simp
qed

lemma gen_tiles:
  assumes contract: "\<And>lo hi s. lo - 1 \<le> hi \<Longrightarrow>
      lo - 1 \<le> fst (randomInt R lo hi s) \<and> fst (randomInt R lo hi s) \<le> hi"
  shows "fst p \<le> fst q \<Longrightarrow> snd p \<le> snd q \<Longrightarrow>
         nat (fst q - fst p) + nat (snd q - snd p) < n \<Longrightarrow>
         \<exists>ls s'. generateGridPartitioningInGridUnits R n p q ratio s = Some (ls, s') \<and> tiles ls p q"
proof (induction n arbitrary: p q ratio s)
  case 0
  then show ?case by simp
next
  case (Suc n)
  note IH = Suc.IH
  consider (dot) "fst q - fst p = 0 \<and> snd q - snd p = 0"
    | (one_two) "(fst q - fst p = 1 \<and> snd q - snd p = 0) \<or> (fst q - fst p = 0 \<and> snd q - snd p = 1)"
    | (two_two) "fst q - fst p = 1 \<and> snd q - snd p = 1"
    | (general) "\<not> (fst q - fst p = 0 \<and> snd q - snd p = 0)"
        "\<not> ((fst q - fst p = 1 \<and> snd q - snd p = 0) \<or> (fst q - fst p = 0 \<and> snd q - snd p = 1))"
        "\<not> (fst q - fst p = 1 \<and> snd q - snd p = 1)"
    by blast
  then show ?case
  proof cases
    case dot
    then show ?thesis using gen_dot[of q p R n ratio s] tiles_dot[of q p] by simp
  next
    case one_two
    then show ?thesis using gen_1x2[of q p R n ratio s] tiles_1x2[of q p] by simp
  next
    case two_two
    then show ?thesis
      using gen_2x2[of q p R n ratio s] tiles_2x2_vert[of q p] tiles_2x2_horz[of q p] by simp
  next
    case general
    define v where "v = (fst (rand R s) > ratio)"
    define drawn where "drawn = (if v then randomInt R (fst p + 1) (fst q) (snd (rand R s))
              else randomInt R (snd p + 1) (snd q) (snd (rand R s)))"
    define line where "line = cutLine v (fst drawn) p q"
    define c where "c = fst drawn"
    have cv: "v \<Longrightarrow> fst p \<le> c \<and> c \<le> fst q"
      using contract[of "fst p + 1" "fst q" "snd (rand R s)"] Suc.prems(1)
      by (simp add: c_def drawn_def)
    have ch: "\<not> v \<Longrightarrow> snd p \<le> c \<and> c \<le> snd q"
      using contract[of "snd p + 1" "snd q" "snd (rand R s)"] Suc.prems(2)
      by (simp add: c_def drawn_def)
    have line_eq: "line = (if v then ((c, snd p), (c, snd q)) else ((fst p, c), (fst q, c)))"
      by (simp add: line_def cutLine_def c_def)
    let ?before = "topOrLeftRect v line p"
    let ?after = "bottomOrRightRect v line q"
    have before_eq: "?before = (if v then (p, (c - 1, snd q)) else (p, (fst q, c - 1)))"
      by (simp add: topOrLeftRect_def line_eq)
    have after_eq: "?after = (if v then ((c + 1, snd p), q) else ((fst p, c + 1), q))"
      by (simp add: bottomOrRightRect_def line_eq)
    have small_b: "isRectValid ?before \<Longrightarrow>
        nat (fst (snd ?before) - fst (fst ?before)) + nat (snd (snd ?before) - snd (fst ?before)) < n"
      unfolding before_eq isRectValid_def using Suc.prems cv ch by (cases v) auto
    have small_a: "isRectValid ?after \<Longrightarrow>
        nat (fst (snd ?after) - fst (fst ?after)) + nat (snd (snd ?after) - snd (fst ?after)) < n"
      unfolding after_eq isRectValid_def using Suc.prems cv ch by (cases v) auto
    obtain ls s3 where ls: "(if isRectValid ?before
                   then generateGridPartitioningInGridUnits R n (fst ?before) (snd ?before)
                          (nextRatio v ratio) (snd drawn)
                   else Some ([], snd drawn)) = Some (ls, s3)" "tiles ls (fst ?before) (snd ?before)"
      using sub_call[of n R ?before "nextRatio v ratio" "snd drawn", OF IH small_b] by blast
    obtain rs s4 where rs: "(if isRectValid ?after
                   then generateGridPartitioningInGridUnits R n (fst ?after) (snd ?after)
                          (nextRatio v ratio) s3
                   else Some ([], s3)) = Some (rs, s4)" "tiles rs (fst ?after) (snd ?after)"
      using sub_call[of n R ?after "nextRatio v ratio" s3, OF IH small_a] by blast
    have res: "generateGridPartitioningInGridUnits R (Suc n) p q ratio s = Some (ls @ [line] @ rs, s4)"
      using gen_general[OF general v_def drawn_def line_def, of n] ls(1) rs(1)
      by (simp del: generateGridPartitioningInGridUnits.simps append.simps)
    have lsT: "tiles ls (fst (if v then (p, (c - 1, snd q)) else (p, (fst q, c - 1))))
                 (snd (if v then (p, (c - 1, snd q)) else (p, (fst q, c - 1))))"
      using ls(2) unfolding before_eq .
    have rsT: "tiles rs (fst (if v then ((c + 1, snd p), q) else ((fst p, c + 1), q)))
                 (snd (if v then ((c + 1, snd p), q) else ((fst p, c + 1), q)))"
      using rs(2) unfolding after_eq .
    have "tiles (ls @ [line] @ rs) p q"
    proof (cases v)
      case True
      have "tiles ls p (c - 1, snd q)" "tiles rs (c + 1, snd p) q"
        using lsT rsT True by simp_all
      then have "tiles (ls @ [((c, snd p), (c, snd q))] @ rs) p q"
        using cv[OF True] Suc.prems(2) by (intro tiles_join_vert) simp_all
      then show ?thesis using True by (simp add: line_eq)
    next
      case False
      have "tiles ls p (fst q, c - 1)" "tiles rs (fst p, c + 1) q"
        using lsT rsT False by simp_all
      then have "tiles (ls @ [((fst p, c), (fst q, c))] @ rs) p q"
        using ch[OF False] Suc.prems(1) by (intro tiles_join_horz) simp_all
      then show ?thesis using False by (simp add: line_eq)
    qed
    then show ?thesis using res by blast
  qed
qed

lemma partition_example:
  "generateGridPartitioningInGridUnits (fixedRandom (3 / 4)) 5 (0, 0) (1, 2) (1 / 2) 0
   = Some ([((0, 0), (0, 0)), ((0, 1), (0, 1)), ((0, 2), (0, 2)), ((1, 0), (1, 2))], 5)"
  by (simp add: eval_nat_numeral fixedRandom_def cutLine_def topOrLeftRect_def
        bottomOrRightRect_def isRectValid_def nextRatio_def Let_def)

subsection \<open>From cells to pixels\<close>

lemma far_edge: "(real_of_int x1 + 1) * (u + g) - g = real_of_int x1 * (u + g) + u"
  by (simp add: algebra_simps)

lemma seg_inside_iff:
  assumes "0 < u" "0 \<le> g"
  shows "(real_of_int x0 * (u + g) \<le> real_of_int i * (u + g) \<and>
          real_of_int i * (u + g) \<le> (real_of_int x1 + 1) * (u + g) - g \<and>
          real_of_int x0 * (u + g) \<le> real_of_int i * (u + g) + u \<and>
          real_of_int i * (u + g) + u \<le> (real_of_int x1 + 1) * (u + g) - g)
         = (x0 \<le> i \<and> i \<le> x1)"
proof -
  have s: "0 < u + g" using assms by simp
  have a: "(real_of_int x0 * (u + g) \<le> real_of_int i * (u + g)) = (x0 \<le> i)"
    using s by simp
  have b: "(real_of_int i * (u + g) + u \<le> real_of_int x1 * (u + g) + u) = (i \<le> x1)"
    using s by simp
  have c: "i \<le> x1 \<Longrightarrow> real_of_int i * (u + g) \<le> real_of_int x1 * (u + g) + u"
  proof -
    assume "i \<le> x1"
    then have "real_of_int i * (u + g) \<le> real_of_int x1 * (u + g)" using s by simp
    then show ?thesis using assms(1) by linarith
  qed
  have d: "x0 \<le> i \<Longrightarrow> real_of_int x0 * (u + g) \<le> real_of_int i * (u + g) + u"
  proof -
    assume "x0 \<le> i"
    then have "real_of_int x0 * (u + g) \<le> real_of_int i * (u + g)" using s by simp
    then show ?thesis using assms(1) by linarith
  qed
  show ?thesis unfolding far_edge a b using c d by blast
qed

lemma seg_apart:
  assumes "0 < u" "0 \<le> g" "x1 < x0'"
  shows "(real_of_int x1 + 1) * (u + g) - g \<le> real_of_int x0' * (u + g)"
proof -
  have "real_of_int x1 + 1 \<le> real_of_int x0'" using assms(3) by linarith
  then have "(real_of_int x1 + 1) * (u + g) \<le> real_of_int x0' * (u + g)"
    using assms(1,2) by (intro mult_right_mono) simp_all
  then show ?thesis using assms(2) by simp
qed

lemma seg_in_bound:
  assumes "0 < u" "0 \<le> g" "0 \<le> x0" "x0 \<le> x1" "x1 \<le> w - 1"
  shows "0 \<le> real_of_int x0 * (u + g)"
    and "real_of_int x0 * (u + g) \<le> u * real_of_int w + g * (real_of_int w - 1)"
    and "0 \<le> (real_of_int x1 + 1) * (u + g) - g"
    and "(real_of_int x1 + 1) * (u + g) - g \<le> u * real_of_int w + g * (real_of_int w - 1)"
proof -
  have s: "0 < u + g" using assms by simp
  have tot: "u * real_of_int w + g * (real_of_int w - 1) = (real_of_int (w - 1) + 1) * (u + g) - g"
    by (simp add: algebra_simps)
  show 1: "0 \<le> real_of_int x0 * (u + g)" using assms s by simp
  have x01: "real_of_int x0 * (u + g) \<le> real_of_int x1 * (u + g)"
    using assms(4) s by simp
  have x1w: "real_of_int x1 * (u + g) \<le> real_of_int (w - 1) * (u + g)"
    using assms(5) s by (simp del: of_int_diff)
  show "real_of_int x0 * (u + g) \<le> u * real_of_int w + g * (real_of_int w - 1)"
    unfolding tot far_edge using x01 x1w assms(1) by linarith
  show "0 \<le> (real_of_int x1 + 1) * (u + g) - g"
    unfolding far_edge using 1 x01 assms(1) by linarith
  show "(real_of_int x1 + 1) * (u + g) - g \<le> u * real_of_int w + g * (real_of_int w - 1)"
    unfolding tot far_edge using x1w by linarith
qed

lemma seg_point_cell:
  assumes "0 < u" "0 \<le> g" "1 \<le> w" "0 \<le> x" "x \<le> u * real_of_int w + g * (real_of_int w - 1)"
    "\<not> inGapStrip u g x"
  shows "\<exists>i. 0 \<le> i \<and> i \<le> w - 1 \<and> real_of_int i * (u + g) \<le> x \<and> x \<le> real_of_int i * (u + g) + u"
proof -
  have s: "0 < u + g" using assms by simp
  define i where "i = \<lfloor>x / (u + g)\<rfloor>"
  have lo: "real_of_int i * (u + g) \<le> x"
    using s by (simp add: i_def pos_le_divide_eq[symmetric])
  have hi: "x \<le> real_of_int i * (u + g) + u"
    using assms(6) by (simp add: inGapStrip_def i_def)
  have i0: "0 \<le> i" using assms(4) s by (simp add: i_def)
  have tot: "u * real_of_int w + g * (real_of_int w - 1) = real_of_int w * (u + g) - g"
    by (simp add: algebra_simps)
  show ?thesis
  proof (cases "i \<le> w - 1")
    case True
    then show ?thesis using lo hi i0 by blast
  next
    case False
    then have "w \<le> i" by simp
    then have "real_of_int w * (u + g) \<le> real_of_int i * (u + g)" using s by simp
    then have wx: "real_of_int w * (u + g) \<le> x" using lo by linarith
    then have g0: "g = 0" using assms(5) assms(2) unfolding tot by linarith
    have xw: "x = real_of_int w * u" using wx assms(5) g0 unfolding tot by simp
    have "real_of_int (w - 1) * (u + g) \<le> x \<and> x \<le> real_of_int (w - 1) * (u + g) + u"
      using g0 xw assms(1) by (simp add: algebra_simps)
    then show ?thesis using assms(3) by (intro exI[of _ "w - 1"]) simp
  qed
qed

lemma boxes_apart:
  assumes "cells l \<inter> cells k = {}"
    "fst (fst l) \<le> fst (snd l)" "snd (fst l) \<le> snd (snd l)"
    "fst (fst k) \<le> fst (snd k)" "snd (fst k) \<le> snd (snd k)"
  shows "fst (snd l) < fst (fst k) \<or> fst (snd k) < fst (fst l) \<or>
         snd (snd l) < snd (fst k) \<or> snd (snd k) < snd (fst l)"
proof (rule ccontr)
  assume "\<not> ?thesis"
  then have "(max (fst (fst l)) (fst (fst k)), max (snd (fst l)) (snd (fst k))) \<in> cells l \<inter> cells k"
    using assms(2-5) by (auto simp: cells_def)
  then show False using assms(1) by simp
qed

lemma inRect_shift:
  "inRect (tx + a, ty + b) ((tx + c, ty + d), (tx + e, ty + f))
   = (c \<le> a \<and> a \<le> e \<and> d \<le> b \<and> b \<le> f)"
  by (simp add: inRect_def)

lemma fullRect_eq:
  "fullRect gp W H ((x0, y0), (x1, y1)) =
     ((fst (gridTopLeft gp W H) + real_of_int x0 * (fst (unitSize gp) + gap gp),
       snd (gridTopLeft gp W H) + real_of_int y0 * (snd (unitSize gp) + gap gp)),
      (fst (gridTopLeft gp W H) + ((real_of_int x1 + 1) * (fst (unitSize gp) + gap gp) - gap gp),
       snd (gridTopLeft gp W H) + ((real_of_int y1 + 1) * (snd (unitSize gp) + gap gp) - gap gp)))"
  by (simp add: fullRect_def translateRect_def scaleToRect_def toLine_def)

lemma cellRect_eq:
  "cellRect gp W H (i, j) =
     ((fst (gridTopLeft gp W H) + real_of_int i * (fst (unitSize gp) + gap gp),
       snd (gridTopLeft gp W H) + real_of_int j * (snd (unitSize gp) + gap gp)),
      (fst (gridTopLeft gp W H) + (real_of_int i * (fst (unitSize gp) + gap gp) + fst (unitSize gp)),
       snd (gridTopLeft gp W H) + (real_of_int j * (snd (unitSize gp) + gap gp) + snd (unitSize gp))))"
  by (simp add: cellRect_def add.assoc)

lemma gridBoundRect_eq:
  "gridBoundRect gp W H =
     ((fst (gridTopLeft gp W H) + 0, snd (gridTopLeft gp W H) + 0),
      (fst (gridTopLeft gp W H) + fst (totalGridBounds gp),
       snd (gridTopLeft gp W H) + snd (totalGridBounds gp)))"
  by (simp add: gridBoundRect_def)

lemma cell_in_rect_iff:
  assumes "0 < fst (unitSize gp)" "0 < snd (unitSize gp)" "0 \<le> gap gp"
  shows "rectInside (cellRect gp W H c) (fullRect gp W H l) = (c \<in> cells l)"
proof -
  obtain i j where c: "c = (i, j)" by (cases c)
  obtain x0 y0 x1 y1 where l: "l = ((x0, y0), (x1, y1))" by (metis prod.collapse)
  have X: "(real_of_int x0 * (fst (unitSize gp) + gap gp) \<le> real_of_int i * (fst (unitSize gp) + gap gp) \<and>
          real_of_int i * (fst (unitSize gp) + gap gp) \<le> (real_of_int x1 + 1) * (fst (unitSize gp) + gap gp) - gap gp \<and>
          real_of_int x0 * (fst (unitSize gp) + gap gp) \<le> real_of_int i * (fst (unitSize gp) + gap gp) + fst (unitSize gp) \<and>
          real_of_int i * (fst (unitSize gp) + gap gp) + fst (unitSize gp) \<le> (real_of_int x1 + 1) * (fst (unitSize gp) + gap gp) - gap gp)
         = (x0 \<le> i \<and> i \<le> x1)"
    using assms by (intro seg_inside_iff)
  have Y: "(real_of_int y0 * (snd (unitSize gp) + gap gp) \<le> real_of_int j * (snd (unitSize gp) + gap gp) \<and>
          real_of_int j * (snd (unitSize gp) + gap gp) \<le> (real_of_int y1 + 1) * (snd (unitSize gp) + gap gp) - gap gp \<and>
          real_of_int y0 * (snd (unitSize gp) + gap gp) \<le> real_of_int j * (snd (unitSize gp) + gap gp) + snd (unitSize gp) \<and>
          real_of_int j * (snd (unitSize gp) + gap gp) + snd (unitSize gp) \<le> (real_of_int y1 + 1) * (snd (unitSize gp) + gap gp) - gap gp)
         = (y0 \<le> j \<and> j \<le> y1)"
    using assms by (intro seg_inside_iff)
  have "rectInside (cellRect gp W H (i, j)) (fullRect gp W H ((x0, y0), (x1, y1)))
        = ((x0 \<le> i \<and> i \<le> x1) \<and> (y0 \<le> j \<and> j \<le> y1))"
    unfolding X[symmetric] Y[symmetric] rectInside_def cellRect_eq fullRect_eq fst_conv snd_conv
      inRect_shift
    by blast
  then show ?thesis by (simp add: c l cells_def)
qed

lemma inRect_trans:
  assumes "inRect pt r" "rectInside r q"
  shows "inRect pt q"
  using assms by (auto simp: inRect_def rectInside_def)

lemma rects_apart:
  assumes "0 < fst (unitSize gp)" "0 < snd (unitSize gp)" "0 \<le> gap gp"
    "cells l \<inter> cells k = {}"
    "fst (fst l) \<le> fst (snd l)" "snd (fst l) \<le> snd (snd l)"
    "fst (fst k) \<le> fst (snd k)" "snd (fst k) \<le> snd (snd k)"
  shows "\<not> rectsOverlap (fullRect gp W H l) (fullRect gp W H k)"
proof -
  obtain x0 y0 x1 y1 where l: "l = ((x0, y0), (x1, y1))" by (metis prod.collapse)
  obtain a0 b0 a1 b1 where k: "k = ((a0, b0), (a1, b1))" by (metis prod.collapse)
  have "x1 < a0 \<or> a1 < x0 \<or> y1 < b0 \<or> b1 < y0"
    using boxes_apart[OF assms(4-8)] by (simp add: l k)
  then consider "x1 < a0" | "a1 < x0" | "y1 < b0" | "b1 < y0" by blast
  then show ?thesis
  proof cases
    case 1
    show ?thesis using seg_apart[OF assms(1,3) 1]
      by (simp add: l k fullRect_eq rectsOverlap_def)
  next
    case 2
    show ?thesis using seg_apart[OF assms(1,3) 2]
      by (simp add: l k fullRect_eq rectsOverlap_def)
  next
    case 3
    show ?thesis using seg_apart[OF assms(2,3) 3]
      by (simp add: l k fullRect_eq rectsOverlap_def)
  next
    case 4
    show ?thesis using seg_apart[OF assms(2,3) 4]
      by (simp add: l k fullRect_eq rectsOverlap_def)
  qed
qed

lemma rect_in_bound:
  assumes "0 < fst (unitSize gp)" "0 < snd (unitSize gp)" "0 \<le> gap gp"
    "gridSizeInUnits gp = (w, h)"
    "cells l \<subseteq> cells ((0, 0), (w - 1, h - 1))"
    "fst (fst l) \<le> fst (snd l)" "snd (fst l) \<le> snd (snd l)"
  shows "rectInside (fullRect gp W H l) (gridBoundRect gp W H)"
proof -
  obtain x0 y0 x1 y1 where l: "l = ((x0, y0), (x1, y1))" by (metis prod.collapse)
  have le: "x0 \<le> x1" "y0 \<le> y1" using assms(6,7) by (simp_all add: l)
  then have "(x0, y0) \<in> cells l" "(x1, y1) \<in> cells l" by (simp_all add: l cells_def)
  then have "(x0, y0) \<in> cells ((0, 0), (w - 1, h - 1))" "(x1, y1) \<in> cells ((0, 0), (w - 1, h - 1))"
    using assms(5) by blast+
  then have b: "0 \<le> x0" "x1 \<le> w - 1" "0 \<le> y0" "y1 \<le> h - 1" by (simp_all add: cells_def)
  note X = seg_in_bound[OF assms(1,3) b(1) le(1) b(2)]
  note Y = seg_in_bound[OF assms(2,3) b(3) le(2) b(4)]
  have tot: "totalGridBounds gp =
      (fst (unitSize gp) * real_of_int w + gap gp * (real_of_int w - 1),
       snd (unitSize gp) * real_of_int h + gap gp * (real_of_int h - 1))"
    by (simp add: totalGridBounds_def assms(4))
  show ?thesis
    unfolding l rectInside_def fullRect_eq gridBoundRect_eq fst_conv snd_conv inRect_shift tot
    using X Y by blast
qed

lemma point_in_cell:
  assumes "0 < fst (unitSize gp)" "0 < snd (unitSize gp)" "0 \<le> gap gp"
    "gridSizeInUnits gp = (w, h)" "1 \<le> w" "1 \<le> h"
    "inRect pt (gridBoundRect gp W H)" "\<not> inGap gp W H pt"
  shows "\<exists>c \<in> cells ((0, 0), (w - 1, h - 1)). inRect pt (cellRect gp W H c)"
proof -
  define dx where "dx = fst pt - fst (gridTopLeft gp W H)"
  define dy where "dy = snd pt - snd (gridTopLeft gp W H)"
  have pt: "pt = (fst (gridTopLeft gp W H) + dx, snd (gridTopLeft gp W H) + dy)"
    by (simp add: dx_def dy_def)
  have tot: "totalGridBounds gp =
      (fst (unitSize gp) * real_of_int w + gap gp * (real_of_int w - 1),
       snd (unitSize gp) * real_of_int h + gap gp * (real_of_int h - 1))"
    by (simp add: totalGridBounds_def assms(4))
  have "inRect (fst (gridTopLeft gp W H) + dx, snd (gridTopLeft gp W H) + dy) (gridBoundRect gp W H)"
    using assms(7) pt by simp
  then have b: "0 \<le> dx" "dx \<le> fst (unitSize gp) * real_of_int w + gap gp * (real_of_int w - 1)"
      "0 \<le> dy" "dy \<le> snd (unitSize gp) * real_of_int h + gap gp * (real_of_int h - 1)"
    unfolding gridBoundRect_eq inRect_shift tot by simp_all
  have ng: "\<not> inGapStrip (fst (unitSize gp)) (gap gp) dx" "\<not> inGapStrip (snd (unitSize gp)) (gap gp) dy"
    using assms(8) by (simp_all add: inGap_def dx_def dy_def)
  obtain i where i: "0 \<le> i" "i \<le> w - 1" "real_of_int i * (fst (unitSize gp) + gap gp) \<le> dx"
      "dx \<le> real_of_int i * (fst (unitSize gp) + gap gp) + fst (unitSize gp)"
    using seg_point_cell[OF assms(1,3,5) b(1,2) ng(1)] by blast
  obtain j where j: "0 \<le> j" "j \<le> h - 1" "real_of_int j * (snd (unitSize gp) + gap gp) \<le> dy"
      "dy \<le> real_of_int j * (snd (unitSize gp) + gap gp) + snd (unitSize gp)"
    using seg_point_cell[OF assms(2,3,6) b(3,4) ng(2)] by blast
  have "inRect (fst (gridTopLeft gp W H) + dx, snd (gridTopLeft gp W H) + dy) (cellRect gp W H (i, j))"
    unfolding cellRect_eq inRect_shift using i j by simp
  moreover have "(i, j) \<in> cells ((0, 0), (w - 1, h - 1))" using i j by (simp add: cells_def)
  ultimately show ?thesis using pt by metis
qed

lemma scaleToRect_full:
  "gitterRatio p = (1, 1) \<Longrightarrow> scaleToRect gp l p = scaleToRect gp l \<lparr> gitterRatio = (1, 1) \<rparr>"
  by (simp add: scaleToRect_def)

lemma zip_full:
  "length ls \<le> length lineProps \<Longrightarrow> \<forall>p \<in> set lineProps. gitterRatio p = (1, 1) \<Longrightarrow>
   map (translateRect t) (map (\<lambda>(l, p). scaleToRect gp l p) (zip (map toLine ls) lineProps))
   = map (\<lambda>l. translateRect t (scaleToRect gp (toLine l) \<lparr> gitterRatio = (1, 1) \<rparr>)) ls"
proof (induction ls arbitrary: lineProps)
  case Nil
  then show ?case by simp
next
  case (Cons l ls)
  then obtain p ps where lp: "lineProps = p # ps" by (cases lineProps) auto
  have hd: "scaleToRect gp (toLine l) p = scaleToRect gp (toLine l) \<lparr> gitterRatio = (1, 1) \<rparr>"
    using Cons.prems(2) lp by (intro scaleToRect_full) simp
  have "map (translateRect t) (map (\<lambda>(l, p). scaleToRect gp l p) (zip (map toLine ls) ps))
        = map (\<lambda>l. translateRect t (scaleToRect gp (toLine l) \<lparr> gitterRatio = (1, 1) \<rparr>)) ls"
    using Cons.prems lp by (intro Cons.IH) simp_all
  then show ?case by (simp add: lp hd)
qed

lemma convert_full:
  assumes "length ls \<le> length lineProps" "\<forall>p \<in> set lineProps. gitterRatio p = (1, 1)"
  shows "convertGridLinesToRects gp W H (map toLine ls) lineProps = Inr (map (fullRect gp W H) ls)"
  using assms zip_full[OF assms, of "gridTopLeft gp W H" gp]
  by (simp add: convertGridLinesToRects_def fullRect_def)

lemma disjointCells_nth:
  "disjointCells ls \<Longrightarrow> i < j \<Longrightarrow> j < length ls \<Longrightarrow> cells (ls ! i) \<inter> cells (ls ! j) = {}"
proof (induction ls arbitrary: i j)
  case Nil
  then show ?case by simp
next
  case (Cons l ls)
  obtain j' where j: "j = Suc j'" using Cons.prems(2) by (cases j) auto
  show ?case
  proof (cases i)
    case 0
    have "ls ! j' \<in> set ls" using Cons.prems(3) j by simp
    then show ?thesis using Cons.prems(1) 0 j by auto
  next
    case (Suc i')
    then show ?thesis using Cons j by simp
  qed
qed

lemma tiles_unique:
  assumes "tiles ls p q" "c \<in> cells (p, q)"
  shows "\<exists>!k. k < length ls \<and> c \<in> cells (ls ! k)"
proof -
  have "c \<in> (\<Union>l \<in> set ls. cells l)" using assms by (simp add: tiles_def)
  then obtain k where k: "k < length ls" "c \<in> cells (ls ! k)"
    by (auto simp: in_set_conv_nth)
  have d: "disjointCells ls" using assms(1) by (simp add: tiles_def)
  have "k' = k" if "k' < length ls" "c \<in> cells (ls ! k')" for k'
  proof (rule ccontr)
    assume "k' \<noteq> k"
    then consider "k' < k" | "k < k'" by linarith
    then show False
    proof cases
      case 1
      then show ?thesis using disjointCells_nth[OF d 1 k(1)] that(2) k(2) by blast
    next
      case 2
      then show ?thesis using disjointCells_nth[OF d 2 that(1)] that(2) k(2) by blast
    qed
  qed
  then show ?thesis using k by blast
qed

lemma tiles_nth:
  assumes "tiles ls p q" "k < length ls"
  shows "cells (ls ! k) \<subseteq> cells (p, q)" "axisAligned (ls ! k)"
proof -
  have "ls ! k \<in> set ls" using assms(2) by simp
  then show "cells (ls ! k) \<subseteq> cells (p, q)" "axisAligned (ls ! k)"
    using assms(1) by (auto simp: tiles_def)
qed

subsection \<open>Tiling completeness\<close>

text \<open>
  Claim C1, as amended. Take a grid of \<open>w\<close> by \<open>h\<close> units, \<open>w, h \<ge> 1\<close>, positive unit
  sizes and a gap \<open>\<ge> 0\<close>, and any random source whose cuts lie within the region being
  cut along the cut's axis (\<open>random(lo, hi, 'int')\<close> between \<open>lo - 1\<close> and \<open>hi\<close>). Then the
  partitioner returns (a call depth of \<open>w + h\<close> suffices for every outcome of the source),
  its lines tile the grid cells, and with every jitter ratio equal to 1 the rectangles of
  \<open>convertGridLinesToRects\<close> tile the scaled grid bound: the square of every grid cell lies
  in exactly one rectangle, no two rectangles share an inner point, every rectangle lies in
  the bound, and every point of the bound that no rectangle covers lies in a gap strip
  between two neighbouring cells.
\<close>

theorem tiling_completeness:
  assumes contract: "\<forall>lo hi s. lo - 1 \<le> hi \<longrightarrow>
      lo - 1 \<le> fst (randomInt R lo hi s) \<and> fst (randomInt R lo hi s) \<le> hi"
    and size: "1 \<le> w" "1 \<le> h" "gridSizeInUnits gp = (w, h)"
    and metrics: "0 < fst (unitSize gp)" "0 < snd (unitSize gp)" "0 \<le> gap gp"
    and fuel: "nat (w + h) \<le> fuel"
  shows "\<exists>ls s'.
     generateGridPartitioningInGridUnits R fuel (0, 0) (w - 1, h - 1) ratio s = Some (ls, s') \<and>
     tiles ls (0, 0) (w - 1, h - 1) \<and>
     (\<forall>lineProps.
        length lineProps = length ls \<and> (\<forall>p \<in> set lineProps. gitterRatio p = (1, 1)) \<longrightarrow>
        (\<exists>rects.
           convertGridLinesToRects gp W H (map toLine ls) lineProps = Inr rects \<and>
           length rects = length ls \<and>
           (\<forall>c \<in> cells ((0, 0), (w - 1, h - 1)).
              \<exists>!k. k < length rects \<and> rectInside (cellRect gp W H c) (rects ! k)) \<and>
           (\<forall>k k'. k < k' \<and> k' < length rects \<longrightarrow> \<not> rectsOverlap (rects ! k) (rects ! k')) \<and>
           (\<forall>k < length rects. rectInside (rects ! k) (gridBoundRect gp W H)) \<and>
           (\<forall>pt. inRect pt (gridBoundRect gp W H) \<and> \<not> inGap gp W H pt \<longrightarrow>
              (\<exists>k < length rects. inRect pt (rects ! k)))))"
proof -
  have "nat (fst (w - 1, h - 1) - fst (0 :: int, 0 :: int)) + nat (snd (w - 1, h - 1) - snd (0 :: int, 0 :: int)) < fuel"
    using size(1,2) fuel by simp
  then obtain ls s' where gen:
      "generateGridPartitioningInGridUnits R fuel (0, 0) (w - 1, h - 1) ratio s = Some (ls, s')"
    and t: "tiles ls (0, 0) (w - 1, h - 1)"
    using gen_tiles[of R "(0, 0)" "(w - 1, h - 1)" fuel ratio s] contract size(1,2) by auto
  have al: "\<And>k. k < length ls \<Longrightarrow> fst (fst (ls ! k)) \<le> fst (snd (ls ! k)) \<and> snd (fst (ls ! k)) \<le> snd (snd (ls ! k))"
    using tiles_nth(2)[OF t] by (simp add: axisAligned_def)
  have pix: "\<exists>rects.
           convertGridLinesToRects gp W H (map toLine ls) lineProps = Inr rects \<and>
           length rects = length ls \<and>
           (\<forall>c \<in> cells ((0, 0), (w - 1, h - 1)).
              \<exists>!k. k < length rects \<and> rectInside (cellRect gp W H c) (rects ! k)) \<and>
           (\<forall>k k'. k < k' \<and> k' < length rects \<longrightarrow> \<not> rectsOverlap (rects ! k) (rects ! k')) \<and>
           (\<forall>k < length rects. rectInside (rects ! k) (gridBoundRect gp W H)) \<and>
           (\<forall>pt. inRect pt (gridBoundRect gp W H) \<and> \<not> inGap gp W H pt \<longrightarrow>
              (\<exists>k < length rects. inRect pt (rects ! k)))"
    if lp: "length lineProps = length ls" "\<forall>p \<in> set lineProps. gitterRatio p = (1, 1)" for lineProps
  proof -
    let ?rects = "map (fullRect gp W H) ls"
    have conv: "convertGridLinesToRects gp W H (map toLine ls) lineProps = Inr ?rects"
      using lp by (intro convert_full) simp_all
    have inside: "rectInside (cellRect gp W H c) (?rects ! k) = (c \<in> cells (ls ! k))"
      if "k < length ls" for c k
      using that cell_in_rect_iff[OF metrics, of W H c "ls ! k"] by simp
    have a: "\<exists>!k. k < length ?rects \<and> rectInside (cellRect gp W H c) (?rects ! k)"
      if c: "c \<in> cells ((0, 0), (w - 1, h - 1))" for c
    proof -
      have "\<exists>!k. k < length ls \<and> c \<in> cells (ls ! k)" using tiles_unique[OF t c] .
      then obtain k where k: "k < length ls" "c \<in> cells (ls ! k)"
        and u: "\<And>k'. k' < length ls \<Longrightarrow> c \<in> cells (ls ! k') \<Longrightarrow> k' = k" by blast
      show ?thesis
      proof (rule ex1I[of _ k])
        show "k < length ?rects \<and> rectInside (cellRect gp W H c) (?rects ! k)"
          using k inside[OF k(1)] by simp
      next
        fix k' assume h: "k' < length ?rects \<and> rectInside (cellRect gp W H c) (?rects ! k')"
        then have kl: "k' < length ls" by simp
        then have "c \<in> cells (ls ! k')" using h inside[OF kl, of c] by simp
        then show "k' = k" using kl by (intro u)
      qed
    qed
    have b: "\<not> rectsOverlap (?rects ! k) (?rects ! k')" if "k < k'" "k' < length ?rects" for k k'
    proof -
      have kk: "k < length ls" "k' < length ls" using that by simp_all
      have d: "disjointCells ls" using t by (simp add: tiles_def)
      have "cells (ls ! k) \<inter> cells (ls ! k') = {}"
        using disjointCells_nth[OF d that(1) kk(2)] .
      then have "\<not> rectsOverlap (fullRect gp W H (ls ! k)) (fullRect gp W H (ls ! k'))"
        using al[OF kk(1)] al[OF kk(2)] by (intro rects_apart[OF metrics]) simp_all
      then show ?thesis using kk by simp
    qed
    have c: "rectInside (?rects ! k) (gridBoundRect gp W H)" if "k < length ?rects" for k
    proof -
      have k: "k < length ls" using that by simp
      have "rectInside (fullRect gp W H (ls ! k)) (gridBoundRect gp W H)"
        using tiles_nth(1)[OF t k] al[OF k] by (intro rect_in_bound[OF metrics size(3)]) simp_all
      then show ?thesis using k by simp
    qed
    have d: "\<exists>k < length ?rects. inRect pt (?rects ! k)"
      if pin: "inRect pt (gridBoundRect gp W H)" "\<not> inGap gp W H pt" for pt
    proof -
      obtain cl where cl: "cl \<in> cells ((0, 0), (w - 1, h - 1))" "inRect pt (cellRect gp W H cl)"
        using point_in_cell[OF metrics size(3,1,2) pin] by blast
      obtain k where k: "k < length ?rects" "rectInside (cellRect gp W H cl) (?rects ! k)"
        using a[OF cl(1)] by blast
      have "inRect pt (?rects ! k)" using inRect_trans[OF cl(2) k(2)] .
      then show ?thesis using k(1) by blast
    qed
    show ?thesis using conv a b c d by (intro exI[of _ ?rects]) simp
  qed
  show ?thesis using gen t pix by blast
qed

theorem tiling_completeness_witness:
  "\<exists>ls s'.
     generateGridPartitioningInGridUnits (fixedRandom (3 / 4)) 5 (0, 0) (2 - 1, 3 - 1) (1 / 2) 0
       = Some (ls, s') \<and>
     tiles ls (0, 0) (2 - 1, 3 - 1) \<and>
     (\<forall>lineProps.
        length lineProps = length ls \<and> (\<forall>p \<in> set lineProps. gitterRatio p = (1, 1)) \<longrightarrow>
        (\<exists>rects.
           convertGridLinesToRects (defaultGrid (2, 3)) 600 600 (map toLine ls) lineProps = Inr rects \<and>
           length rects = length ls \<and>
           (\<forall>c \<in> cells ((0, 0), (2 - 1, 3 - 1)).
              \<exists>!k. k < length rects \<and> rectInside (cellRect (defaultGrid (2, 3)) 600 600 c) (rects ! k)) \<and>
           (\<forall>k k'. k < k' \<and> k' < length rects \<longrightarrow> \<not> rectsOverlap (rects ! k) (rects ! k')) \<and>
           (\<forall>k < length rects. rectInside (rects ! k) (gridBoundRect (defaultGrid (2, 3)) 600 600)) \<and>
           (\<forall>pt. inRect pt (gridBoundRect (defaultGrid (2, 3)) 600 600) \<and>
                 \<not> inGap (defaultGrid (2, 3)) 600 600 pt \<longrightarrow>
              (\<exists>k < length rects. inRect pt (rects ! k)))))"
proof -
  have c: "\<forall>lo hi s. lo - 1 \<le> hi \<longrightarrow>
      lo - 1 \<le> fst (randomInt (fixedRandom (3 / 4)) lo hi s) \<and>
      fst (randomInt (fixedRandom (3 / 4)) lo hi s) \<le> hi"
    by (simp add: fixedRandom_def)
  show ?thesis
    by (rule tiling_completeness[OF c]) (simp_all add: defaultGrid_def)
qed

text \<open>
  With a jitter ratio below 1 this fails: on the 1 by 1 grid of the default metrics and a
  jitter ratio of \<open>1/2\<close> the only rectangle is the point \<open>(0, 0)\<close>, and the centre of the
  bound is covered by nothing although it lies in no gap.
\<close>

theorem tiling_jitter_counterexample:
  "generateGridPartitioningInGridUnits (fixedRandom (3 / 4)) 1 (0, 0) (1 - 1, 1 - 1) (1 / 2) 0
     = Some ([((0, 0), (0, 0))], 0) \<and>
   convertGridLinesToRects (defaultGrid (1, 1)) 50 50 (map toLine [((0, 0), (0, 0))])
       [\<lparr> gitterRatio = (1 / 2, 1 / 2) \<rparr>]
     = Inr [((0, 0), (0, 0))] \<and>
   inRect (25, 25) (gridBoundRect (defaultGrid (1, 1)) 50 50) \<and>
   \<not> inGap (defaultGrid (1, 1)) 50 50 (25, 25) \<and>
   \<not> inRect (25, 25) ((0, 0), (0, 0)) \<and>
   \<not> rectInside (cellRect (defaultGrid (1, 1)) 50 50 (0, 0)) ((0, 0), (0, 0))"
  by (simp add: convertGridLinesToRects_def defaultGrid_def toLine_def scaleToRect_def
        translateRect_def gridTopLeft_def totalGridBounds_def gridBoundRect_def inRect_def
        inGap_def inGapStrip_def rectInside_def cellRect_def)

text \<open>
  The cuts have to fall within the region as well: a source that answers the empty range
  \<open>random(1, 0, 'int')\<close> of a one-column strip with 1 puts a line in column 1, outside
  the strip \<open>[0,0]..[0,2]\<close>.
\<close>

lemma partition_cut_outside:
  "generateGridPartitioningInGridUnits (lowEndRandom (3 / 4)) 3 (0, 0) (0, 2) (1 / 2) 0
     = Some ([((0, 0), (0, 0)), ((0, 1), (0, 1)), ((0, 2), (0, 2)), ((1, 0), (1, 2))], 4) \<and>
   (1, 0) \<in> cells ((1, 0), (1, 2)) \<and> (1, 0) \<notin> cells ((0, 0), (0, 2))"
  by (simp add: eval_nat_numeral lowEndRandom_def cutLine_def topOrLeftRect_def
        bottomOrRightRect_def isRectValid_def nextRatio_def Let_def cells_def)

section \<open>Properties of the content assigner\<close>

subsection \<open>The palette walk\<close>

lemma paletteWalk_hit:
  assumes "i < length rs" "v - sum_list (take i rs) < rs ! i"
    "\<forall>j < i. \<not> (v - sum_list (take j rs) < rs ! j)"
  shows "paletteWalk v rs k = k + int i"
  using assms
proof (induction rs arbitrary: v i k)
  case Nil
  then show ?case by simp
next
  case (Cons r rs)
  show ?case
  proof (cases i)
    case 0
    then show ?thesis using Cons.prems by simp
  next
    case (Suc i')
    have nr: "\<not> v < r" using Cons.prems(3) Suc by fastforce
    have a: "i' < length rs" using Cons.prems(1) Suc by simp
    have b: "(v - r) - sum_list (take i' rs) < rs ! i'" using Cons.prems(2) Suc by (simp add: algebra_simps)
    have c: "\<forall>j < i'. \<not> ((v - r) - sum_list (take j rs) < rs ! j)"
    proof (intro allI impI)
      fix j assume "j < i'"
      then have "\<not> (v - sum_list (take (Suc j) (r # rs)) < (r # rs) ! Suc j)"
        using Cons.prems(3) Suc by (metis Suc_less_eq)
      then show "\<not> ((v - r) - sum_list (take j rs) < rs ! j)" by (simp add: algebra_simps)
    qed
    have "paletteWalk (v - r) rs (k + 1) = (k + 1) + int i'" using Cons.IH[OF a b c] .
    then show ?thesis using nr Suc by simp
  qed
qed

lemma paletteWalk_miss:
  assumes "\<forall>j < length rs. \<not> (v - sum_list (take j rs) < rs ! j)"
  shows "paletteWalk v rs k = - 1"
  using assms
proof (induction rs arbitrary: v k)
  case Nil
  then show ?case by simp
next
  case (Cons r rs)
  have nr: "\<not> v < r" using Cons.prems by fastforce
  have "\<forall>j < length rs. \<not> ((v - r) - sum_list (take j rs) < rs ! j)"
  proof (intro allI impI)
    fix j assume "j < length rs"
    then have "\<not> (v - sum_list (take (Suc j) (r # rs)) < (r # rs) ! Suc j)"
      using Cons.prems by (metis Suc_less_eq length_Cons)
    then show "\<not> ((v - r) - sum_list (take j rs) < rs ! j)" by (simp add: algebra_simps)
  qed
  then have "paletteWalk (v - r) rs (k + 1) = - 1" by (rule Cons.IH)
  then show ?case using nr by simp
qed

lemma paletteWalk_range:
  "paletteWalk v rs k = - 1 \<or> (k \<le> paletteWalk v rs k \<and> paletteWalk v rs k < k + int (length rs))"
proof (induction rs arbitrary: v k)
  case Nil
  then show ?case by simp
next
  case (Cons r rs)
  show ?case using Cons.IH[of "v - r" "k + 1"] by auto
qed

text \<open>
  Claim C6. When the sprinkle override does not fire (\<open>rand()\<close> is not below
  \<open>colorSprinkleRatio\<close>), the palette index is the result of the walk over
  \<open>colorPalletesRatio\<close>: each weight passed is subtracted from the normalized noise value,
  and the walk returns the first index at which what remains is below that index's weight,
  or \<open>-1\<close> when there is none. With the ratios \<open>[0.5, 0.5]\<close> the value \<open>0.3\<close> selects
  index 0 and the value \<open>0.7\<close> selects index 1.
\<close>

theorem palette_selection:
  assumes "\<not> fst (rand R s) < colorSprinkleRatio fg"
  shows "fst (selectPallete R fg (colorPalleteIndex noise (colorPalletesRatio fg)) s)
           = paletteWalk (colorPalleteNormalizedValue noise) (colorPalletesRatio fg) 0 \<and>
         (\<forall>i < length ratios.
            v - sum_list (take i ratios) < ratios ! i \<and>
            (\<forall>j < i. \<not> (v - sum_list (take j ratios) < ratios ! j))
            \<longrightarrow> paletteWalk v ratios 0 = int i) \<and>
         ((\<forall>j < length ratios. \<not> (v - sum_list (take j ratios) < ratios ! j))
            \<longrightarrow> paletteWalk v ratios 0 = - 1) \<and>
         paletteWalk (3 / 10) [1 / 2, 1 / 2] 0 = 0 \<and>
         paletteWalk (7 / 10) [1 / 2, 1 / 2] 0 = 1"
proof -
  have 1: "fst (selectPallete R fg (colorPalleteIndex noise (colorPalletesRatio fg)) s)
           = paletteWalk (colorPalleteNormalizedValue noise) (colorPalletesRatio fg) 0"
    using assms by (simp add: selectPallete_def colorPalleteIndex_def)
  have 2: "paletteWalk v ratios 0 = int i"
    if "i < length ratios" "v - sum_list (take i ratios) < ratios ! i"
       "\<forall>j < i. \<not> (v - sum_list (take j ratios) < ratios ! j)" for i
    using paletteWalk_hit[OF that, of 0] by simp
  have 3: "paletteWalk v ratios 0 = - 1"
    if "\<forall>j < length ratios. \<not> (v - sum_list (take j ratios) < ratios ! j)"
    using paletteWalk_miss[OF that] .
  show ?thesis using 1 2 3 by simp
qed

theorem palette_selection_witness:
  "fst (selectPallete (fixedRandom (1 / 2)) (exampleForeground [1 / 2, 1 / 2])
          (colorPalleteIndex (49 / 100) (colorPalletesRatio (exampleForeground [1 / 2, 1 / 2]))) 0) = 1"
proof -
  have "\<not> fst (rand (fixedRandom (1 / 2)) (0 :: nat)) < colorSprinkleRatio (exampleForeground [1 / 2, 1 / 2])"
    by (simp add: fixedRandom_def exampleForeground_def)
  from palette_selection[OF this, of "49 / 100"]
  show ?thesis
    by (simp add: colorPalleteNormalizedValue_def double_0_7_def double_0_99_def
          exampleForeground_def)
qed

subsection \<open>Exhausting the palette ratios\<close>

lemma normalized_le_clamp: "colorPalleteNormalizedValue noise \<le> double_0_99"
  by (simp add: colorPalleteNormalizedValue_def)

text \<open>
  Ratios that sum to less than \<open>0.99\<close> need not leave a value that exhausts them: the
  clamp is the double \<open>0.99\<close>, a little below \<open>0.99\<close>, and what remains of it after
  \<open>0.9375\<close> is below the second weight here, so every noise value finds a palette.
\<close>

lemma palette_walk_near_clamp:
  "colorPalleteIndex noise [15 / 16, 52499999999999995 / 1000000000000000000] \<noteq> - 1"
proof -
  let ?v = "colorPalleteNormalizedValue noise"
  have le: "?v \<le> double_0_99" by (rule normalized_le_clamp)
  show ?thesis
  proof (cases "?v < 15 / 16")
    case True
    then show ?thesis by (simp add: colorPalleteIndex_def)
  next
    case False
    have "?v - 15 / 16 < 52499999999999995 / 1000000000000000000"
      using le by (simp add: double_0_99_def)
    then show ?thesis using False by (simp add: colorPalleteIndex_def)
  qed
qed




section \<open>Properties of the rect converter\<close>

lemma spec_agrees_iff:
  "(specScaleToRect gp l p = scaleToRect gp l p)
   = (fst (unitSize gp) = gap gp \<and> snd (unitSize gp) = gap gp)"
  by (auto simp: specScaleToRect_def scaleToRect_def algebra_simps)

lemma grid_centred:
  "fst (gridTopLeft gp W H) + fst (totalGridBounds gp) / 2 = W / 2 \<and>
   snd (gridTopLeft gp W H) + snd (totalGridBounds gp) / 2 = H / 2"
  by (simp add: gridTopLeft_def field_simps)

text \<open>
  Claim C8, as amended. \<open>convertGridLinesToRects\<close> takes no random source and keeps the
  order of its lines: rectangle \<open>i\<close> comes from line \<open>i\<close> and \<open>lineProps[i]\<close>. The near
  corner is the first endpoint scaled by \<open>unitSize + gap\<close> per axis; the far corner is
  \<open>(endpoint + jitterRatio) * (unitSize + gap) - gap\<close>; both are then moved by the one
  vector \<open>(canvas - totalGridBounds) / 2\<close>, which centres the grid bound
  \<open>unitSize * gridSizeInUnits + gap * (gridSizeInUnits - 1)\<close> in the canvas. The far corner
  is the scaled endpoint moved inward by \<open>(1 - jitterRatio) * (unitSize + gap) - gap\<close> only
  when the unit size equals the gap on both axes.
\<close>

theorem convert_formula:
  assumes "length lines \<le> length lineProps"
  shows "\<exists>rects.
     convertGridLinesToRects gp W H lines lineProps = Inr rects \<and>
     length rects = length lines \<and>
     (\<forall>i < length lines.
        rects ! i =
          ((fst (gridTopLeft gp W H) + fst (fst (lines ! i)) * (fst (unitSize gp) + gap gp),
            snd (gridTopLeft gp W H) + snd (fst (lines ! i)) * (snd (unitSize gp) + gap gp)),
           (fst (gridTopLeft gp W H)
              + ((fst (snd (lines ! i)) + fst (gitterRatio (lineProps ! i)))
                   * (fst (unitSize gp) + gap gp) - gap gp),
            snd (gridTopLeft gp W H)
              + ((snd (snd (lines ! i)) + snd (gitterRatio (lineProps ! i)))
                   * (snd (unitSize gp) + gap gp) - gap gp)))) \<and>
     totalGridBounds gp =
       (fst (unitSize gp) * real_of_int (fst (gridSizeInUnits gp))
          + gap gp * (real_of_int (fst (gridSizeInUnits gp)) - 1),
        snd (unitSize gp) * real_of_int (snd (gridSizeInUnits gp))
          + gap gp * (real_of_int (snd (gridSizeInUnits gp)) - 1)) \<and>
     fst (gridTopLeft gp W H) + fst (totalGridBounds gp) / 2 = W / 2 \<and>
     snd (gridTopLeft gp W H) + snd (totalGridBounds gp) / 2 = H / 2 \<and>
     (\<forall>l p. (specScaleToRect gp l p = scaleToRect gp l p)
            = (fst (unitSize gp) = gap gp \<and> snd (unitSize gp) = gap gp))"
proof -
  let ?rects = "map (translateRect (gridTopLeft gp W H))
                  (map (\<lambda>(l, p). scaleToRect gp l p) (zip lines lineProps))"
  have c: "convertGridLinesToRects gp W H lines lineProps = Inr ?rects"
    using assms by (simp add: convertGridLinesToRects_def)
  have len: "length ?rects = length lines" using assms by simp
  have nth: "?rects ! i =
          ((fst (gridTopLeft gp W H) + fst (fst (lines ! i)) * (fst (unitSize gp) + gap gp),
            snd (gridTopLeft gp W H) + snd (fst (lines ! i)) * (snd (unitSize gp) + gap gp)),
           (fst (gridTopLeft gp W H)
              + ((fst (snd (lines ! i)) + fst (gitterRatio (lineProps ! i)))
                   * (fst (unitSize gp) + gap gp) - gap gp),
            snd (gridTopLeft gp W H)
              + ((snd (snd (lines ! i)) + snd (gitterRatio (lineProps ! i)))
                   * (snd (unitSize gp) + gap gp) - gap gp)))"
    if "i < length lines" for i
    using that assms by (simp add: translateRect_def scaleToRect_def)
  have tot: "totalGridBounds gp =
       (fst (unitSize gp) * real_of_int (fst (gridSizeInUnits gp))
          + gap gp * (real_of_int (fst (gridSizeInUnits gp)) - 1),
        snd (unitSize gp) * real_of_int (snd (gridSizeInUnits gp))
          + gap gp * (real_of_int (snd (gridSizeInUnits gp)) - 1))"
    by (simp add: totalGridBounds_def)
  show ?thesis
    apply (rule exI[of _ ?rects])
    apply (intro conjI)
          apply (rule c)
         apply (rule len)
        using nth apply blast
       apply (rule tot)
      using grid_centred[of gp W H] apply blast
     using grid_centred[of gp W H] apply blast
    using spec_agrees_iff[of gp] apply blast
    done
qed

theorem convert_formula_witness:
  "convertGridLinesToRects (defaultGrid (20, 30)) 3600 3600
     [((0, 0), (0, 2)), ((1, 0), (3, 0))]
     [\<lparr> gitterRatio = (1, 1) \<rparr>, \<lparr> gitterRatio = (1 / 2, 1) \<rparr>]
   = Inr [((825, 325), (875, 575)), ((925, 325), (1125, 375))]"
proof -
  obtain rects where r:
    "convertGridLinesToRects (defaultGrid (20, 30)) 3600 3600
       [((0, 0), (0, 2)), ((1, 0), (3, 0))]
       [\<lparr> gitterRatio = (1, 1) \<rparr>, \<lparr> gitterRatio = (1 / 2, 1) \<rparr>] = Inr rects"
    using convert_formula [of "[((0, 0), (0, 2)), ((1, 0), (3, 0))]"
        "[\<lparr> gitterRatio = (1, 1) \<rparr>, \<lparr> gitterRatio = (1 / 2, 1) \<rparr>]"
        "defaultGrid (20, 30)" 3600 3600]
    by auto
  then show ?thesis
    by (simp add: convertGridLinesToRects_def defaultGrid_def gridTopLeft_def totalGridBounds_def
          translateRect_def scaleToRect_def)
qed

text \<open>
  With a unit of 10 and a gap of 5 the source puts the far corner of the cell \<open>(0, 0)\<close> at
  \<open>(10, 10)\<close>; the inward shift of the specification puts it at \<open>(5, 5)\<close>.
\<close>

theorem convert_inward_shift_counterexample:
  "convertGridLinesToRects \<lparr> gap = 5, unitSize = (10, 10), gridSizeInUnits = (1, 1) \<rparr> 10 10
     [((0, 0), (0, 0))] [\<lparr> gitterRatio = (1, 1) \<rparr>]
     = Inr [((0, 0), (10, 10))] \<and>
   translateRect (gridTopLeft \<lparr> gap = 5, unitSize = (10, 10), gridSizeInUnits = (1, 1) \<rparr> 10 10)
     (specScaleToRect \<lparr> gap = 5, unitSize = (10, 10), gridSizeInUnits = (1, 1) \<rparr>
        ((0, 0), (0, 0)) \<lparr> gitterRatio = (1, 1) \<rparr>)
     = ((0, 0), (5, 5))"
  by (simp add: convertGridLinesToRects_def gridTopLeft_def totalGridBounds_def
        translateRect_def scaleToRect_def specScaleToRect_def)

section \<open>Properties of the timeline\<close>

lemma mathMaxFrom_Max: "mathMaxFrom m xs = Max (set (m # xs))"
proof (induction xs arbitrary: m)
  case Nil
  then show ?case by simp
next
  case (Cons x xs)
  have "Max (set (max m x # xs)) = Max (set (m # x # xs))"
    by (cases "xs = []") (simp_all add: max.assoc)
  then show ?case using Cons.IH[of "max m x"] by simp
qed

lemma timelineDuration_Max:
  assumes "rs \<noteq> []"
  shows "timelineDuration rs
         = Some (Max (set (map rectStartDelayInTicks rs)) + Max (set (map breathDurationInTicks rs)))"
proof -
  obtain r rest where rs: "rs = r # rest" using assms by (cases rs) auto
  show ?thesis unfolding rs timelineDuration_def by (simp add: mathMaxFrom_Max)
qed

lemma those_map_Some: "those (map Some xs) = Some xs"
  by (induction xs) simp_all

text \<open>
  Claim C10. For a non-empty list of rectangle properties the timeline built has a root of
  type timeline whose duration is the largest start delay plus the largest breath
  duration, and one breath child per rectangle, in order; for every child, start delay
  plus duration plus end delay is the root's duration, and the end delay is not negative.
\<close>

theorem timeline_lockstep:
  assumes "rs \<noteq> []"
  shows "\<exists>root.
     timelineAnimation an (map Some rs) = Some root \<and>
     atype root = ''timeline'' \<and>
     startDelayInTicks root = geneStartDelayInTicks an \<and>
     endDelayInTicks root = geneEndDelayInTicks an \<and>
     durationInTicks root
       = Max (set (map rectStartDelayInTicks rs)) + Max (set (map breathDurationInTicks rs)) \<and>
     length (subAnimations root) = length rs \<and>
     (\<forall>i < length rs.
        subAnimations root ! i
          = Animation (rectStartDelayInTicks (rs ! i)) (breathDurationInTicks (rs ! i))
              (durationInTicks root - breathDurationInTicks (rs ! i) - rectStartDelayInTicks (rs ! i))
              (Some i) ''breath'' []) \<and>
     (\<forall>a \<in> set (subAnimations root).
        atype a = ''breath'' \<and>
        startDelayInTicks a + durationInTicks a + endDelayInTicks a = durationInTicks root \<and>
        completeTicksDuration a = durationInTicks root \<and>
        0 \<le> endDelayInTicks a)"
proof -
  define D where "D = Max (set (map rectStartDelayInTicks rs)) + Max (set (map breathDurationInTicks rs))"
  define subs where "subs = map (\<lambda>(r, i).
        Animation (rectStartDelayInTicks r) (breathDurationInTicks r)
          (D - breathDurationInTicks r - rectStartDelayInTicks r) (Some i) ''breath'' [])
      (zip rs [0 ..< length rs])"
  define root where "root = Animation (geneStartDelayInTicks an) D (geneEndDelayInTicks an)
      None ''timeline'' subs"
  have built: "timelineAnimation an (map Some rs) = Some root"
    by (simp add: timelineAnimation_def those_map_Some timelineDuration_Max[OF assms]
          root_def subs_def D_def)
  have len: "length subs = length rs" by (simp add: subs_def)
  have nth: "subs ! i = Animation (rectStartDelayInTicks (rs ! i)) (breathDurationInTicks (rs ! i))
              (D - breathDurationInTicks (rs ! i) - rectStartDelayInTicks (rs ! i))
              (Some i) ''breath'' []" if "i < length rs" for i
    using that by (simp add: subs_def)
  have bound: "rectStartDelayInTicks (rs ! i) + breathDurationInTicks (rs ! i) \<le> D"
    if "i < length rs" for i
  proof -
    have "rectStartDelayInTicks (rs ! i) \<in> set (map rectStartDelayInTicks rs)"
      "breathDurationInTicks (rs ! i) \<in> set (map breathDurationInTicks rs)"
      using that by simp_all
    then have "rectStartDelayInTicks (rs ! i) \<le> Max (set (map rectStartDelayInTicks rs))"
      "breathDurationInTicks (rs ! i) \<le> Max (set (map breathDurationInTicks rs))"
      by (simp_all only: Max_ge[OF finite_set])
    then show ?thesis by (simp add: D_def)
  qed
  have each: "atype a = ''breath'' \<and>
        startDelayInTicks a + durationInTicks a + endDelayInTicks a = D \<and>
        completeTicksDuration a = D \<and> 0 \<le> endDelayInTicks a" if "a \<in> set subs" for a
  proof -
    from that obtain i where "i < length subs" "subs ! i = a"
      unfolding in_set_conv_nth by blast
    then have i: "i < length rs" "a = subs ! i" using len by simp_all
    show ?thesis using bound[OF i(1)] by (simp add: i(2) nth[OF i(1)] completeTicksDuration_def)
  qed
  have "atype root = ''timeline''" "startDelayInTicks root = geneStartDelayInTicks an"
    "endDelayInTicks root = geneEndDelayInTicks an" "durationInTicks root = D"
    "subAnimations root = subs"
    by (simp_all add: root_def)
  then show ?thesis using built len nth each unfolding D_def[symmetric]
    by (intro exI[of _ root]) simp
qed

theorem timeline_lockstep_witness:
  "timelineAnimation defaultAnimation
     [Some \<lparr> fromColor = None, toColor = None, tintColor = None, rectPointilism = None,
             isVert = True, zIndex = 0, rectStartDelayInTicks = 233, breathDurationInTicks = 80 \<rparr>,
      Some \<lparr> fromColor = None, toColor = None, tintColor = None, rectPointilism = None,
             isVert = False, zIndex = 1, rectStartDelayInTicks = 10, breathDurationInTicks = 240 \<rparr>]
   = Some (Animation 1000 473 0 None ''timeline''
            [Animation 233 80 160 (Some 0) ''breath'' [],
             Animation 10 240 223 (Some 1) ''breath'' []])"
proof -
  let ?rs = "[\<lparr> fromColor = None, toColor = None, tintColor = None, rectPointilism = None,
             isVert = True, zIndex = 0, rectStartDelayInTicks = 233, breathDurationInTicks = 80 \<rparr>,
      \<lparr> fromColor = None, toColor = None, tintColor = None, rectPointilism = None,
             isVert = False, zIndex = 1, rectStartDelayInTicks = 10, breathDurationInTicks = 240 \<rparr>]"
  obtain root where r: "timelineAnimation defaultAnimation (map Some ?rs) = Some root"
    using timeline_lockstep [of ?rs defaultAnimation] by auto
  then show ?thesis
    by (simp add: timelineAnimation_def timelineDuration_def defaultAnimation_def)
qed

end
